theory Spec2Isabelle
  imports Main
begin

section \<open>Go library functions used by the package inventory\<close>

text \<open>
  Go strings are byte sequences; \<open>string\<close> (a list of 8-bit characters) is the same.
  \<open>strings.TrimSpace\<close> and \<open>strings.Fields\<close> cut at the white space of
  \<open>unicode.IsSpace\<close>: six ASCII bytes, and the UTF-8 encodings of U+0085, U+00A0,
  U+1680, U+2000 to U+200A, U+2028, U+2029, U+202F, U+205F and U+3000. Any other byte,
  also one of an invalid encoding, is not white space.
\<close>

definition asciiSpace :: "char \<Rightarrow> bool" where
  "asciiSpace c = (c = CHR 0x09 \<or> c = CHR 0x0A \<or> c = CHR 0x0B \<or> c = CHR 0x0C
     \<or> c = CHR 0x0D \<or> c = CHR 0x20)"

definition HasPrefix :: "string \<Rightarrow> string \<Rightarrow> bool" where
  "HasPrefix s p = (length p \<le> length s \<and> take (length p) s = p)"

definition HasSuffix :: "string \<Rightarrow> string \<Rightarrow> bool" where
  "HasSuffix s p = (length p \<le> length s \<and> drop (length s - length p) s = p)"

definition wideSpaces :: "string list" where
  "wideSpaces =
     [[CHR 0xC2, CHR 0x85], [CHR 0xC2, CHR 0xA0], [CHR 0xE1, CHR 0x9A, CHR 0x80],
      [CHR 0xE2, CHR 0x80, CHR 0x80], [CHR 0xE2, CHR 0x80, CHR 0x81],
      [CHR 0xE2, CHR 0x80, CHR 0x82], [CHR 0xE2, CHR 0x80, CHR 0x83],
      [CHR 0xE2, CHR 0x80, CHR 0x84], [CHR 0xE2, CHR 0x80, CHR 0x85],
      [CHR 0xE2, CHR 0x80, CHR 0x86], [CHR 0xE2, CHR 0x80, CHR 0x87],
      [CHR 0xE2, CHR 0x80, CHR 0x88], [CHR 0xE2, CHR 0x80, CHR 0x89],
      [CHR 0xE2, CHR 0x80, CHR 0x8A], [CHR 0xE2, CHR 0x80, CHR 0xA8],
      [CHR 0xE2, CHR 0x80, CHR 0xA9], [CHR 0xE2, CHR 0x80, CHR 0xAF],
      [CHR 0xE2, CHR 0x81, CHR 0x9F], [CHR 0xE3, CHR 0x80, CHR 0x80]]"

text \<open>The number of bytes of the white-space rune at the start (at the end) of a
  string, 0 when the string does not start (end) with one.\<close>

definition leadingSpace :: "string \<Rightarrow> nat" where
  "leadingSpace s =
     (case s of [] \<Rightarrow> 0
      | c # _ \<Rightarrow> if asciiSpace c then 1
                 else (case find (HasPrefix s) wideSpaces of None \<Rightarrow> 0 | Some r \<Rightarrow> length r))"

definition trailingSpace :: "string \<Rightarrow> nat" where
  "trailingSpace s =
     (if s = [] then 0
      else if asciiSpace (last s) then 1
      else (case find (HasSuffix s) wideSpaces of None \<Rightarrow> 0 | Some r \<Rightarrow> length r))"

function trimLeftSpace :: "string \<Rightarrow> string" where
  "trimLeftSpace s = (if leadingSpace s = 0 then s else trimLeftSpace (drop (leadingSpace s) s))"
  by pat_completeness auto
termination
proof (relation "measure length")
  show "wf (measure length)" by simp
next
  fix s :: string
  assume pos: "leadingSpace s \<noteq> 0"
  have "leadingSpace s \<le> length s"
  proof (cases "find (HasPrefix s) wideSpaces")
    case None
    then show ?thesis by (cases s) (simp_all add: leadingSpace_def)
  next
    case (Some r)
    then have "HasPrefix s r" by (auto simp: find_Some_iff)
    then show ?thesis using Some by (cases s) (simp_all add: leadingSpace_def HasPrefix_def)
  qed
  then show "(drop (leadingSpace s) s, s) \<in> measure length" using pos by simp
qed

function trimRightSpace :: "string \<Rightarrow> string" where
  "trimRightSpace s =
     (if trailingSpace s = 0 then s else trimRightSpace (take (length s - trailingSpace s) s))"
  by pat_completeness auto
termination
proof (relation "measure length")
  show "wf (measure length)" by simp
next
  fix s :: string
  assume pos: "trailingSpace s \<noteq> 0"
  have "trailingSpace s \<le> length s"
  proof (cases "find (HasSuffix s) wideSpaces")
    case None
    then show ?thesis by (cases s) (simp_all add: trailingSpace_def)
  next
    case (Some r)
    then have "HasSuffix s r" by (auto simp: find_Some_iff)
    then show ?thesis using Some by (cases s) (simp_all add: trailingSpace_def HasSuffix_def)
  qed
  then show "(take (length s - trailingSpace s) s, s) \<in> measure length" using pos by simp
qed

definition TrimSpace :: "string \<Rightarrow> string" where
  "TrimSpace s = trimRightSpace (trimLeftSpace s)"

definition TrimPrefix :: "string \<Rightarrow> string \<Rightarrow> string" where
  "TrimPrefix s p = (if HasPrefix s p then drop (length p) s else s)"

text \<open>\<open>strings.Fields\<close>: the maximal runs of bytes between white space, none of them
  empty. The second argument is the field being read.\<close>

function fieldsFrom :: "string \<Rightarrow> string \<Rightarrow> string list" where
  "fieldsFrom s cur =
     (if s = [] then (if cur = [] then [] else [cur])
      else if leadingSpace s = 0 then fieldsFrom (tl s) (cur @ [hd s])
      else (if cur = [] then [] else [cur]) @ fieldsFrom (drop (leadingSpace s) s) [])"
  by pat_completeness auto
termination
proof (relation "measure (\<lambda>(s, cur). length s)")
  show "wf (measure (\<lambda>(s, cur). length s))" by simp
next
  fix s cur :: string
  assume "s \<noteq> []"
  then show "((tl s, cur @ [hd s]), (s, cur)) \<in> measure (\<lambda>(s, cur). length s)"
    by (cases s) simp_all
next
  fix s cur :: string
  assume pos: "s \<noteq> []" "leadingSpace s \<noteq> 0"
  have "leadingSpace s \<le> length s"
  proof (cases "find (HasPrefix s) wideSpaces")
    case None
    then show ?thesis by (cases s) (simp_all add: leadingSpace_def)
  next
    case (Some r)
    then have "HasPrefix s r" by (auto simp: find_Some_iff)
    then show ?thesis using Some by (cases s) (simp_all add: leadingSpace_def HasPrefix_def)
  qed
  then show "((drop (leadingSpace s) s, []), (s, cur)) \<in> measure (\<lambda>(s, cur). length s)"
    using pos by simp
qed

definition Fields :: "string \<Rightarrow> string list" where
  "Fields s = fieldsFrom s []"

text \<open>\<open>strings.Split\<close> and \<open>strings.SplitN\<close>, for the one-byte separators the
  program passes (a line feed, a space). \<open>Split\<close> returns one more piece than there are
  separators; \<open>SplitN\<close> returns at most \<open>n\<close> pieces, the last one unsplit.\<close>

fun Split :: "string \<Rightarrow> char \<Rightarrow> string list" where
  "Split [] sep = [[]]"
| "Split (c # s) sep =
     (if c = sep then [] # Split s sep
      else (case Split s sep of [] \<Rightarrow> [[c]] | x # xs \<Rightarrow> (c # x) # xs))"

fun SplitN :: "string \<Rightarrow> char \<Rightarrow> nat \<Rightarrow> string list" where
  "SplitN s sep 0 = []"
| "SplitN s sep (Suc 0) = [s]"
| "SplitN s sep (Suc (Suc n)) =
     (if sep \<in> set s
      then takeWhile (\<lambda>c. c \<noteq> sep) s # SplitN (tl (dropWhile (\<lambda>c. c \<noteq> sep) s)) sep (Suc n)
      else [s])"

text \<open>\<open>strconv.Atoi\<close> on a 64-bit \<open>int\<close>: an optional sign and decimal digits.
  A syntax error returns 0; a value out of range returns the nearest bound of \<open>int\<close>,
  together with the range error.\<close>

datatype NumError = ErrSyntax | ErrRange

definition intSize :: nat where
  "intSize = 64"

definition isDigit :: "char \<Rightarrow> bool" where
  "isDigit c = (48 \<le> (of_char c :: nat) \<and> (of_char c :: nat) \<le> 57)"

definition digitsValue :: "string \<Rightarrow> int" where
  "digitsValue s = foldl (\<lambda>n c. n * 10 + (int (of_char c) - 48)) 0 s"

definition Atoi :: "string \<Rightarrow> int \<times> NumError option" where
  "Atoi s =
     (if s = [] then (0, Some ErrSyntax)
      else
        let neg = (hd s = CHR ''-'');
            ds = (if hd s = CHR ''+'' \<or> hd s = CHR ''-'' then tl s else s);
            cutoff = (2 :: int) ^ (intSize - 1)
        in if ds = [] \<or> \<not> list_all isDigit ds then (0, Some ErrSyntax)
           else if \<not> neg \<and> digitsValue ds \<ge> cutoff then (cutoff - 1, Some ErrRange)
           else if neg \<and> digitsValue ds > cutoff then (- cutoff, Some ErrRange)
           else ((if neg then - digitsValue ds else digitsValue ds), None))"

section \<open>Data model\<close>

text \<open>The zero value of \<open>apkverifier.CertInfo\<close>; the inventory never fills it in.\<close>

datatype CertInfo = CertInfoZero

record PackageFile =
  Path :: string
  LocalName :: string
  MD5 :: string
  SHA1 :: string
  SHA256 :: string
  SHA512 :: string
  Error :: string
  VerifiedCertificate :: bool
  Certificate :: CertInfo
  CertificateError :: string
  TrustedCertificate :: bool

record Package =
  Name :: string
  Files :: "PackageFile list"
  Installer :: string
  UID :: int
  Disabled :: bool
  System :: bool
  ThirdParty :: bool

section \<open>The device, the log and run-time panics\<close>

text \<open>
  \<open>a.Shell\<close> runs a command on the device and returns its output and a Go error
  (\<open>None\<close> is \<open>nil\<close>, \<open>Some msg\<close> an error printing as \<open>msg\<close>). The device has
  a state of its own that a command may change; the world also records every command issued
  and every line logged, in order.
\<close>

type_synonym argv = "string list"
type_synonym goerror = string
type_synonym 'd device = "argv \<Rightarrow> 'd \<Rightarrow> (string \<times> goerror option) \<times> 'd"

datatype log_entry = Errorf string | Infof string

record 'd world =
  device :: 'd
  issued :: "argv list"
  logged :: "log_entry list"

datatype panic = IndexOutOfRange nat nat | ReflectSetBool string

type_synonym ('a, 'd) action = "'d world \<Rightarrow> (panic + 'a) \<times> 'd world"

definition ret :: "'a \<Rightarrow> ('a, 'd) action" where
  "ret a w = (Inr a, w)"

definition bindA :: "('a, 'd) action \<Rightarrow> ('a \<Rightarrow> ('b, 'd) action) \<Rightarrow> ('b, 'd) action" where
  "bindA m f w = (case m w of (Inl e, w') \<Rightarrow> (Inl e, w') | (Inr a, w') \<Rightarrow> f a w')"

definition liftE :: "panic + 'a \<Rightarrow> ('a, 'd) action" where
  "liftE r w = (r, w)"

definition Shell :: "'d device \<Rightarrow> argv \<Rightarrow> 'd world \<Rightarrow> (string \<times> goerror option) \<times> 'd world" where
  "Shell sh cmd w =
     (case sh cmd (device w) of
        (r, d') \<Rightarrow> (r, w\<lparr>device := d', issued := issued w @ [cmd]\<rparr>))"

definition ShellA :: "'d device \<Rightarrow> argv \<Rightarrow> (string \<times> goerror option, 'd) action" where
  "ShellA sh cmd w = (case Shell sh cmd w of (r, w') \<Rightarrow> (Inr r, w'))"

text \<open>The verb \<open>%v\<close> applied to a Go error.\<close>

definition fmt_v :: "goerror option \<Rightarrow> string" where
  "fmt_v err = (case err of None \<Rightarrow> ''<nil>'' | Some msg \<Rightarrow> msg)"

definition log_Errorf :: "string \<Rightarrow> 'd world \<Rightarrow> 'd world" where
  "log_Errorf msg w = w\<lparr>logged := logged w @ [Errorf msg]\<rparr>"

definition log_Infof :: "string \<Rightarrow> 'd world \<Rightarrow> 'd world" where
  "log_Infof msg w = w\<lparr>logged := logged w @ [Infof msg]\<rparr>"

text \<open>\<open>xs[i]\<close> on a slice: a run-time panic when \<open>i\<close> is out of range.\<close>

definition index :: "'a list \<Rightarrow> nat \<Rightarrow> panic + 'a" where
  "index xs i = (if i < length xs then Inr (xs ! i) else Inl (IndexOutOfRange i (length xs)))"

section \<open>getPackageFiles\<close>

definition newPackageFile :: "string \<Rightarrow> PackageFile" where
  "newPackageFile packagePath =
     \<lparr>Path = packagePath, LocalName = [], MD5 = [], SHA1 = [], SHA256 = [], SHA512 = [],
      Error = [], VerifiedCertificate = False, Certificate = CertInfoZero,
      CertificateError = [], TrustedCertificate = False\<rparr>"

text \<open>The body of \<open>if !fast\<close>: four digest commands, one after the other.\<close>

definition hashFile :: "'d device \<Rightarrow> PackageFile \<Rightarrow> (PackageFile, 'd) action" where
  "hashFile sh packageFile0 =
     bindA (ShellA sh [''md5sum'', Path packageFile0]) (\<lambda>(md5Out, err).
     bindA (if err = None
            then bindA (liftE (index (SplitN md5Out CHR '' '' 2) 0))
                   (\<lambda>v. ret (packageFile0\<lparr>MD5 := v\<rparr>))
            else ret packageFile0) (\<lambda>packageFile1.
     bindA (ShellA sh [''sha1sum'', Path packageFile0]) (\<lambda>(sha1Out, err).
     bindA (if err = None
            then bindA (liftE (index (SplitN sha1Out CHR '' '' 2) 0))
                   (\<lambda>v. ret (packageFile1\<lparr>SHA1 := v\<rparr>))
            else ret packageFile1) (\<lambda>packageFile2.
     bindA (ShellA sh [''sha256sum'', Path packageFile0]) (\<lambda>(sha256Out, err).
     bindA (if err = None
            then bindA (liftE (index (SplitN sha256Out CHR '' '' 2) 0))
                   (\<lambda>v. ret (packageFile2\<lparr>SHA256 := v\<rparr>))
            else ret packageFile2) (\<lambda>packageFile3.
     bindA (ShellA sh [''sha512sum'', Path packageFile0]) (\<lambda>(sha512Out, err).
     bindA (if err = None
            then bindA (liftE (index (SplitN sha512Out CHR '' '' 2) 0))
                   (\<lambda>v. ret (packageFile3\<lparr>SHA512 := v\<rparr>))
            else ret packageFile3) ret)))))))"

text \<open>The loop over the lines of \<open>pm path\<close>.\<close>

fun filesLoop :: "'d device \<Rightarrow> bool \<Rightarrow> string list \<Rightarrow> PackageFile list
    \<Rightarrow> (PackageFile list, 'd) action" where
  "filesLoop sh fast [] packageFiles w = (Inr packageFiles, w)"
| "filesLoop sh fast (line # rest) packageFiles w =
     (let packagePath = TrimPrefix (TrimSpace line) ''package:'' in
      if packagePath = [] then filesLoop sh fast rest packageFiles w
      else if \<not> fast then
        (case hashFile sh (newPackageFile packagePath) w of
           (Inl e, w') \<Rightarrow> (Inl e, w')
         | (Inr packageFile, w') \<Rightarrow> filesLoop sh fast rest (packageFiles @ [packageFile]) w')
      else filesLoop sh fast rest (packageFiles @ [newPackageFile packagePath]) w)"

definition getPackageFiles :: "'d device \<Rightarrow> string \<Rightarrow> bool \<Rightarrow> (PackageFile list, 'd) action" where
  "getPackageFiles sh packageName fast w =
     (case Shell sh [''pm'', ''path'', packageName] w of
        ((out, err), w') \<Rightarrow>
          if err \<noteq> None then
            (Inr [],
             log_Errorf (''Failed to get file paths for package '' @ packageName @ '': ''
                         @ fmt_v err @ '': '' @ out) w')
          else filesLoop sh fast (Split out CHR 0x0A) [] w')"

section \<open>GetPackages\<close>

text \<open>Lines 147 to 155: the fields of one line of the listing. \<open>installer\<close> and
  \<open>uid\<close> are assigned on every iteration before they are read.\<close>

definition parseLine :: "bool \<Rightarrow> string \<Rightarrow> panic + (string \<times> string \<times> int)" where
  "parseLine withInstaller line =
     (let fields = Fields line in
      case index fields 0 of Inl e \<Rightarrow> Inl e
      | Inr f0 \<Rightarrow>
          let packageName = TrimPrefix (TrimSpace f0) ''package:'' in
          if withInstaller then
            (case index fields 1 of Inl e \<Rightarrow> Inl e
             | Inr f1 \<Rightarrow>
                 (case index fields 2 of Inl e \<Rightarrow> Inl e
                  | Inr f2 \<Rightarrow>
                      Inr (packageName, TrimPrefix (TrimSpace f1) ''installer='',
                           fst (Atoi (TrimPrefix (TrimSpace f2) ''uid:'')))))
          else
            (case index fields 1 of Inl e \<Rightarrow> Inl e
             | Inr f1 \<Rightarrow>
                 Inr (packageName, [], fst (Atoi (TrimPrefix (TrimSpace f1) ''uid:'')))))"

fun listLoop :: "'d device \<Rightarrow> bool \<Rightarrow> bool \<Rightarrow> string list \<Rightarrow> Package list
    \<Rightarrow> (Package list, 'd) action" where
  "listLoop sh fast withInstaller [] packages w = (Inr packages, w)"
| "listLoop sh fast withInstaller (line # rest) packages w =
     (case parseLine withInstaller line of
        Inl e \<Rightarrow> (Inl e, w)
      | Inr (packageName, installer, uid) \<Rightarrow>
          if packageName = [] then listLoop sh fast withInstaller rest packages w
          else
            (case getPackageFiles sh packageName fast w of
               (Inl e, w') \<Rightarrow> (Inl e, w')
             | (Inr files, w') \<Rightarrow>
                 listLoop sh fast withInstaller rest
                   (packages @ [\<lparr>Name = packageName, Files = files, Installer = installer,
                                 UID = uid, Disabled = False, System = False,
                                 ThirdParty = False\<rparr>]) w'))"

text \<open>The reflection of lines 198 to 204: the names of the fields of \<open>Package\<close> in
  declaration order, and \<open>FieldByName(name).SetBool(b)\<close>, which panics on a field that
  is not a \<open>bool\<close>.\<close>

definition PackageFieldNames :: "string list" where
  "PackageFieldNames =
     [''Name'', ''Files'', ''Installer'', ''UID'', ''Disabled'', ''System'', ''ThirdParty'']"

definition SetBoolByName :: "string \<Rightarrow> bool \<Rightarrow> Package \<Rightarrow> panic + Package" where
  "SetBoolByName fieldName b p =
     (if fieldName = ''Disabled'' then Inr (p\<lparr>Disabled := b\<rparr>)
      else if fieldName = ''System'' then Inr (p\<lparr>System := b\<rparr>)
      else if fieldName = ''ThirdParty'' then Inr (p\<lparr>ThirdParty := b\<rparr>)
      else Inl (ReflectSetBool fieldName))"

fun reflectLoop :: "string \<Rightarrow> nat \<Rightarrow> string list \<Rightarrow> Package list \<Rightarrow> panic + Package list" where
  "reflectLoop field pIndex [] packages = Inr packages"
| "reflectLoop field pIndex (fieldName # rest) packages =
     (if fieldName = field then
        (case index packages pIndex of Inl e \<Rightarrow> Inl e
         | Inr p \<Rightarrow>
             (case SetBoolByName fieldName True p of Inl e \<Rightarrow> Inl e
              | Inr p' \<Rightarrow> reflectLoop field pIndex rest (packages[pIndex := p'])))
      else reflectLoop field pIndex rest packages)"

text \<open>\<open>for pIndex, p := range packages\<close>: the indices are fixed when the loop starts,
  each \<open>p\<close> is read when its iteration starts.\<close>

fun rangePackages :: "string \<Rightarrow> string \<Rightarrow> nat list \<Rightarrow> Package list \<Rightarrow> panic + Package list" where
  "rangePackages field packageName [] packages = Inr packages"
| "rangePackages field packageName (pIndex # rest) packages =
     (case index packages pIndex of Inl e \<Rightarrow> Inl e
      | Inr p \<Rightarrow>
          if Name p \<noteq> packageName then rangePackages field packageName rest packages
          else
            (case reflectLoop field pIndex PackageFieldNames packages of Inl e \<Rightarrow> Inl e
             | Inr packages' \<Rightarrow> rangePackages field packageName rest packages'))"

text \<open>The loop over the lines of one filtered listing (lines 187 to 206).\<close>

fun mergeLines :: "string \<Rightarrow> string list \<Rightarrow> Package list \<Rightarrow> panic + Package list" where
  "mergeLines field [] packages = Inr packages"
| "mergeLines field (line # rest) packages =
     (let packageName = TrimPrefix (TrimSpace line) ''package:'' in
      if packageName = [] then mergeLines field rest packages
      else
        (case rangePackages field packageName [0..<length packages] packages of
           Inl e \<Rightarrow> Inl e
         | Inr packages' \<Rightarrow> mergeLines field rest packages'))"

text \<open>\<open>cmds\<close>: each entry is the pair of its \<open>"field"\<close> and its \<open>"arg"\<close>.\<close>

definition cmds :: "(string \<times> string) list" where
  "cmds = [(''Disabled'', ''-d''), (''System'', ''-s''), (''ThirdParty'', ''-3'')]"

fun cmdsLoop :: "'d device \<Rightarrow> (string \<times> string) list \<Rightarrow> Package list
    \<Rightarrow> (Package list, 'd) action" where
  "cmdsLoop sh [] packages w = (Inr packages, w)"
| "cmdsLoop sh ((field, arg) # rest) packages w =
     (case Shell sh [''pm'', ''list'', ''packages'', arg] w of
        ((out, err), w') \<Rightarrow>
          if err \<noteq> None \<and> out = [] then
            cmdsLoop sh rest packages
              (log_Infof (''Failed to get packages filtered by `'' @ arg @ ''`: '' @ fmt_v err
                          @ '': '' @ out @ [CHR 0x0A]) w')
          else
            (case mergeLines field (Split out CHR 0x0A) packages of
               Inl e \<Rightarrow> (Inl e, w')
             | Inr packages' \<Rightarrow> cmdsLoop sh rest packages' w'))"

definition GetPackages :: "'d device \<Rightarrow> bool \<Rightarrow> (Package list \<times> goerror option, 'd) action" where
  "GetPackages sh fast =
     bindA (ShellA sh [''pm'', ''list'', ''packages'', ''-U'', ''-u'', ''-i'']) (\<lambda>(out, err).
     bindA (if err \<noteq> None
            then bindA (ShellA sh [''pm'', ''list'', ''packages'', ''-U'', ''-u''])
                   (\<lambda>(out, err). ret (out, err, False))
            else ret (out, err, True)) (\<lambda>(out, err, withInstaller).
     if err \<noteq> None
     then ret ([], Some (''failed to launch `pm list packages` command: '' @ fmt_v err))
     else
         bindA (listLoop sh fast withInstaller (Split out CHR 0x0A) []) (\<lambda>packages.
         bindA (cmdsLoop sh cmds packages) (\<lambda>packages.
         ret (packages, None)))))"

section \<open>Devices and worlds for concrete runs\<close>

definition emptyWorld :: "unit world" where
  "emptyWorld = \<lparr>device = (), issued = [], logged = []\<rparr>"

text \<open>A device without state, answering from a table of commands; any other command
  fails with no output.\<close>

definition tableDevice :: "(argv \<times> string \<times> goerror option) list \<Rightarrow> unit device" where
  "tableDevice table cmd d =
     (case map_of table cmd of
        None \<Rightarrow> (([], Some ''exit status 1''), d)
      | Some r \<Rightarrow> (r, d))"

definition listingWithBlankLine :: "unit device" where
  "listingWithBlankLine =
     tableDevice
       [([''pm'', ''list'', ''packages'', ''-U'', ''-u'', ''-i''],
         (''package:com.example.app installer=com.android.vending uid:10123'' @ [CHR 0x0A]
          @ [CHR 0x0A] @ ''package:com.android.phone installer=null uid:1001'', None))]"

definition listingWithShortLine :: "unit device" where
  "listingWithShortLine =
     tableDevice
       [([''pm'', ''list'', ''packages'', ''-U'', ''-u'', ''-i''],
         (''package:com.example.app uid:10123'', None))]"

definition twoPathsDevice :: "unit device" where
  "twoPathsDevice =
     tableDevice
       [([''pm'', ''path'', ''com.example.app''],
         (''package:/data/app/base.apk'' @ [CHR 0x0A] @ ''package:/data/app/split.apk''
            @ [CHR 0x0A], None))]"



definition basePackage :: "string \<Rightarrow> Package" where
  "basePackage name =
     \<lparr>Name = name, Files = [], Installer = [], UID = 0, Disabled = False, System = False,
      ThirdParty = False\<rparr>"

definition systemQueryDevice :: "unit device" where
  "systemQueryDevice =
     tableDevice
       [([''pm'', ''list'', ''packages'', ''-s''],
         (''package:B'' @ [CHR 0x0A] @ ''package:D'', None))]"

definition systemQueryFailsDevice :: "unit device" where
  "systemQueryFailsDevice =
     tableDevice
       [([''pm'', ''list'', ''packages'', ''-U'', ''-u'', ''-i''],
         (''package:com.example.app installer=com.android.vending uid:10123'' @ [CHR 0x0A]
          @ ''package:com.android.phone installer=null uid:1001'', None)),
        ([''pm'', ''list'', ''packages'', ''-d''], (''package:com.android.phone'', None)),
        ([''pm'', ''list'', ''packages'', ''-3''], (''package:com.example.app'', None))]"

definition duplicateNameDevice :: "unit device" where
  "duplicateNameDevice =
     tableDevice
       [([''pm'', ''list'', ''packages'', ''-U'', ''-u'', ''-i''],
         (''package:com.example.app installer=com.android.vending uid:10123'' @ [CHR 0x0A]
          @ ''package:com.example.app installer=com.android.vending uid:1010123'', None)),
        ([''pm'', ''list'', ''packages'', ''-3''], (''package:com.example.app'', None))]"





definition reducedTrailingNewlineDevice :: "unit device" where
  "reducedTrailingNewlineDevice =
     tableDevice
       [([''pm'', ''list'', ''packages'', ''-U'', ''-u''],
         (''package:com.example.app uid:10123'' @ [CHR 0x0A], None))]"

definition reducedEmptyDevice :: "unit device" where
  "reducedEmptyDevice =
     tableDevice [([''pm'', ''list'', ''packages'', ''-U'', ''-u''], ([], None))]"

text \<open>A device that answers from the same table and counts the commands it has run.\<close>

definition tableAnswers :: "(argv \<times> string \<times> goerror option) list
    \<Rightarrow> argv \<Rightarrow> string \<times> goerror option" where
  "tableAnswers table cmd =
     (case map_of table cmd of None \<Rightarrow> ([], Some ''exit status 1'') | Some r \<Rightarrow> r)"

definition countingDevice :: "(argv \<times> string \<times> goerror option) list \<Rightarrow> nat device" where
  "countingDevice table cmd n = (tableAnswers table cmd, Suc n)"

definition inventoryTable :: "(argv \<times> string \<times> goerror option) list" where
  "inventoryTable =
     [([''pm'', ''list'', ''packages'', ''-U'', ''-u'', ''-i''],
       (''package:com.example.app installer=com.android.vending uid:10123'', None)),
      ([''pm'', ''path'', ''com.example.app''], (''package:/data/app/base.apk'', None)),
      ([''md5sum'', ''/data/app/base.apk''],
       (''d41d8cd98f00b204e9800998ecf8427e  /data/app/base.apk'', None)),
      ([''sha1sum'', ''/data/app/base.apk''],
       (''da39a3ee5e6b4b0d3255bfef95601890afd80709  /data/app/base.apk'', None)),
      ([''pm'', ''list'', ''packages'', ''-3''], (''package:com.example.app'', None))]"

section \<open>Notions used to state the results\<close>

text \<open>The values that the loops over \<open>pm path\<close> and over a filtered listing keep: every
  line trimmed, its prefix removed, empty results dropped.\<close>

definition lineValues :: "string \<Rightarrow> string list \<Rightarrow> string list" where
  "lineValues prefix lines =
     filter (\<lambda>v. v \<noteq> []) (map (\<lambda>line. TrimPrefix (TrimSpace line) prefix) lines)"

text \<open>What a digest field holds after its command returned \<open>(out, err)\<close>.\<close>

definition digestField :: "string \<times> goerror option \<Rightarrow> string" where
  "digestField r =
     (case r of (out, None) \<Rightarrow> takeWhile (\<lambda>c. c \<noteq> CHR '' '') out | (out, Some e) \<Rightarrow> [])"


text \<open>The fields that \<open>cmds\<close> names, the record with one of them set, and the
  reading of one of them.\<close>

definition flagFields :: "string list" where
  "flagFields = map fst cmds"

definition setFlag :: "string \<Rightarrow> Package \<Rightarrow> Package" where
  "setFlag field p =
     (if field = ''Disabled'' then p\<lparr>Disabled := True\<rparr>
      else if field = ''System'' then p\<lparr>System := True\<rparr>
      else if field = ''ThirdParty'' then p\<lparr>ThirdParty := True\<rparr>
      else p)"

definition flagOf :: "string \<Rightarrow> Package \<Rightarrow> bool" where
  "flagOf field p =
     (if field = ''Disabled'' then Disabled p
      else if field = ''System'' then System p
      else if field = ''ThirdParty'' then ThirdParty p
      else False)"

definition markNamed :: "string \<Rightarrow> string list \<Rightarrow> Package \<Rightarrow> Package" where
  "markNamed field names p = (if Name p \<in> set names then setFlag field p else p)"

text \<open>The name, installer and UID of a record; the triples that the listing loop keeps
  from the lines it can parse; the part of \<open>GetPackages\<close> after the listing was
  obtained; the two listing commands.\<close>

definition nameInstallerUID :: "Package \<Rightarrow> string \<times> string \<times> int" where
  "nameInstallerUID p = (Name p, Installer p, UID p)"

definition parsedRecords :: "bool \<Rightarrow> string list \<Rightarrow> (string \<times> string \<times> int) list" where
  "parsedRecords withInstaller lines =
     concat (map (\<lambda>line. case parseLine withInstaller line of
                            Inl e \<Rightarrow> []
                          | Inr (n, i, u) \<Rightarrow> if n = [] then [] else [(n, i, u)]) lines)"

definition listAndAugment :: "'d device \<Rightarrow> bool \<Rightarrow> bool \<Rightarrow> string
    \<Rightarrow> (Package list \<times> goerror option, 'd) action" where
  "listAndAugment sh fast withInstaller out =
     bindA (listLoop sh fast withInstaller (Split out CHR 0x0A) []) (\<lambda>packages.
     bindA (cmdsLoop sh cmds packages) (\<lambda>packages.
     ret (packages, None)))"

definition primaryQuery :: argv where
  "primaryQuery = [''pm'', ''list'', ''packages'', ''-U'', ''-u'', ''-i'']"

definition reducedQuery :: argv where
  "reducedQuery = [''pm'', ''list'', ''packages'', ''-U'', ''-u'']"

text \<open>A device answers from \<open>m\<close> when the output and error of every command
  are those that \<open>m\<close> gives, whatever the state of the device.\<close>

definition answers :: "'d device \<Rightarrow> (argv \<Rightarrow> string \<times> goerror option) \<Rightarrow> bool" where
  "answers sh m = (\<forall>cmd d. fst (sh cmd d) = m cmd)"

section \<open>The per-line parse of the listing\<close>

text \<open>
  C1. The listing loop indexes \<open>fields[0]\<close>, \<open>fields[1]\<close> and \<open>fields[2]\<close>
  before it tests the name for emptiness. A listing with a blank line makes
  \<open>GetPackages\<close> panic with index 0 out of range of an empty slice, and a line with two
  fields makes the annotated parse panic with index 2 out of range of a slice of length 2:
  blank and short lines are not dropped, and no record is returned.
\<close>

theorem GetPackages_blank_line_panics:
  "fst (GetPackages listingWithBlankLine fast emptyWorld) = Inl (IndexOutOfRange 0 0)
   \<and> fst (GetPackages listingWithShortLine fast emptyWorld) = Inl (IndexOutOfRange 2 2)"
  by (cases fast) (code_simp, code_simp)

section \<open>The file resolver\<close>

lemma Shell_issued:
  "Shell sh cmd w = (r, w') \<Longrightarrow> issued w' = issued w @ [cmd] \<and> logged w' = logged w"
  by (auto simp: Shell_def split: prod.splits)

lemma Shell_answers:
  assumes "answers sh m"
  shows "\<exists>w1. Shell sh cmd w = (m cmd, w1)"
proof -
  have "fst (sh cmd (device w)) = m cmd" using assms by (simp add: answers_def)
  then show ?thesis by (auto simp: Shell_def split: prod.splits)
qed

lemma answers_tableDevice: "answers (tableDevice table) (tableAnswers table)"
  by (simp add: answers_def tableDevice_def tableAnswers_def split: option.splits)

lemma answers_countingDevice: "answers (countingDevice table) (tableAnswers table)"
  by (simp add: answers_def countingDevice_def)

lemma index_SplitN_two: "index (SplitN s c 2) 0 = Inr (takeWhile (\<lambda>x. x \<noteq> c) s)"
proof -
  have two: "(2::nat) = Suc (Suc 0)" by simp
  show ?thesis
  proof (cases "c \<in> set s")
    case True
    then show ?thesis unfolding two by (simp add: index_def)
  next
    case False
    then have tw: "takeWhile (\<lambda>x. x \<noteq> c) s = s" by auto
    show ?thesis unfolding two using False by (simp add: index_def tw)
  qed
qed

lemma hashFile_steps:
  assumes "Shell sh [''md5sum'', p] w0 = (r1, w1)"
      and "Shell sh [''sha1sum'', p] w1 = (r2, w2)"
      and "Shell sh [''sha256sum'', p] w2 = (r3, w3)"
      and "Shell sh [''sha512sum'', p] w3 = (r4, w4)"
  shows "hashFile sh (newPackageFile p) w0 =
           (Inr ((newPackageFile p)\<lparr>MD5 := digestField r1, SHA1 := digestField r2,
                                     SHA256 := digestField r3, SHA512 := digestField r4\<rparr>), w4)"
proof -
  obtain o1 e1 o2 e2 o3 e3 o4 e4
    where r: "r1 = (o1, e1)" "r2 = (o2, e2)" "r3 = (o3, e3)" "r4 = (o4, e4)"
    by (metis surj_pair)
  have P: "Path (newPackageFile p) = p" by (simp add: newPackageFile_def)
  show ?thesis
    using assms unfolding r hashFile_def P
    by (simp add: bindA_def ShellA_def ret_def liftE_def index_SplitN_two digestField_def
        newPackageFile_def split: option.splits)
qed

lemma lineValues_Nil: "lineValues prefix [] = []"
  by (simp add: lineValues_def)

lemma lineValues_Cons:
  "lineValues prefix (line # rest) =
     (if TrimPrefix (TrimSpace line) prefix = [] then lineValues prefix rest
      else TrimPrefix (TrimSpace line) prefix # lineValues prefix rest)"
  by (simp add: lineValues_def)

lemma filesLoop_fast:
  "filesLoop sh True lines acc w =
     (Inr (acc @ map newPackageFile (lineValues ''package:'' lines)), w)"
  by (induction lines arbitrary: acc) (simp_all add: lineValues_Nil lineValues_Cons Let_def)

lemma hashFile_total:
  "\<exists>pf w'. hashFile sh (newPackageFile p) w = (Inr pf, w') \<and> Path pf = p"
proof -
  obtain r1 w1 where s1: "Shell sh [''md5sum'', p] w = (r1, w1)" by (metis surj_pair)
  obtain r2 w2 where s2: "Shell sh [''sha1sum'', p] w1 = (r2, w2)" by (metis surj_pair)
  obtain r3 w3 where s3: "Shell sh [''sha256sum'', p] w2 = (r3, w3)" by (metis surj_pair)
  obtain r4 w4 where s4: "Shell sh [''sha512sum'', p] w3 = (r4, w4)" by (metis surj_pair)
  show ?thesis
    unfolding hashFile_steps [OF s1 s2 s3 s4] by (simp add: newPackageFile_def)
qed

lemma filesLoop_total:
  "\<exists>files w'. filesLoop sh fast lines acc w = (Inr files, w')
     \<and> map Path files = map Path acc @ lineValues ''package:'' lines"
proof (induction lines arbitrary: acc w)
  case Nil
  show ?case by (simp add: lineValues_Nil)
next
  case (Cons line rest)
  let ?v = "TrimPrefix (TrimSpace line) ''package:''"
  show ?case
  proof (cases "?v = []")
    case True
    then show ?thesis using Cons [of acc w] by (simp add: lineValues_Cons)
  next
    case False
    show ?thesis
    proof (cases fast)
      case True
      show ?thesis
        using Cons [of "acc @ [newPackageFile ?v]" w] False True
        by (simp add: lineValues_Cons newPackageFile_def)
    next
      case notfast: False
      obtain pf w1 where h: "hashFile sh (newPackageFile ?v) w = (Inr pf, w1)" "Path pf = ?v"
        using hashFile_total by blast
      show ?thesis
        using Cons [of "acc @ [pf]" w1] False notfast h
        by (simp add: lineValues_Cons)
    qed
  qed
qed

lemma getPackageFiles_total:
  "\<exists>files w'. getPackageFiles sh packageName fast w = (Inr files, w')"
proof -
  obtain out err w1 where s: "Shell sh [''pm'', ''path'', packageName] w = ((out, err), w1)"
    by (metis surj_pair)
  show ?thesis
    using filesLoop_total [of sh fast "Split out CHR 0x0A" "[]" w1]
    by (auto simp: getPackageFiles_def s)
qed

text \<open>
  C4. In fast mode \<open>getPackageFiles\<close> returns a sequence of file records whose four
  digest fields are all empty, and the only command it issues is \<open>pm path\<close> for the
  package: no digest command is issued.
\<close>

theorem getPackageFiles_fast_no_digests:
  "\<exists>files w'. getPackageFiles sh packageName True w = (Inr files, w')
     \<and> (\<forall>f \<in> set files. MD5 f = [] \<and> SHA1 f = [] \<and> SHA256 f = [] \<and> SHA512 f = [])
     \<and> issued w' = issued w @ [[''pm'', ''path'', packageName]]"
proof -
  obtain out err w1 where s: "Shell sh [''pm'', ''path'', packageName] w = ((out, err), w1)"
    by (metis surj_pair)
  have i: "issued w1 = issued w @ [[''pm'', ''path'', packageName]]"
    using Shell_issued [OF s] by simp
  show ?thesis
  proof (cases err)
    case None
    then show ?thesis
      using i by (auto simp: getPackageFiles_def s filesLoop_fast newPackageFile_def)
  next
    case (Some e)
    then show ?thesis
      using i by (simp add: getPackageFiles_def s log_Errorf_def)
  qed
qed

theorem getPackageFiles_fast_no_digests_witness:
  "getPackageFiles twoPathsDevice ''com.example.app'' True emptyWorld =
     (Inr [newPackageFile ''/data/app/base.apk'', newPackageFile ''/data/app/split.apk''],
      \<lparr>device = (), issued = [[''pm'', ''path'', ''com.example.app'']], logged = []\<rparr>)
   \<and> MD5 (newPackageFile ''/data/app/base.apk'') = []
   \<and> SHA1 (newPackageFile ''/data/app/base.apk'') = []
   \<and> SHA256 (newPackageFile ''/data/app/base.apk'') = []
   \<and> SHA512 (newPackageFile ''/data/app/base.apk'') = []
   \<and> MD5 (newPackageFile ''/data/app/split.apk'') = []
   \<and> SHA1 (newPackageFile ''/data/app/split.apk'') = []
   \<and> SHA256 (newPackageFile ''/data/app/split.apk'') = []
   \<and> SHA512 (newPackageFile ''/data/app/split.apk'') = []"
proof -
  have run: "getPackageFiles twoPathsDevice ''com.example.app'' True emptyWorld =
     (Inr [newPackageFile ''/data/app/base.apk'', newPackageFile ''/data/app/split.apk''],
      \<lparr>device = (), issued = [[''pm'', ''path'', ''com.example.app'']], logged = []\<rparr>)"
    by code_simp
  show ?thesis
    using getPackageFiles_fast_no_digests [of twoPathsDevice "''com.example.app''" emptyWorld]
    unfolding run by simp
qed

text \<open>
  C7. \<open>getPackageFiles\<close> always returns a sequence, whatever the device answers: no
  digest output can make it panic. When \<open>pm path\<close> itself fails, it returns the empty
  sequence and logs one error line; nothing is raised.
\<close>

theorem getPackageFiles_always_returns:
  "(\<exists>files w'. getPackageFiles sh packageName fast w = (Inr files, w'))
   \<and> (\<forall>out e w1. Shell sh [''pm'', ''path'', packageName] w = ((out, Some e), w1) \<longrightarrow>
          getPackageFiles sh packageName fast w =
            (Inr [], w1\<lparr>logged := logged w1 @
               [Errorf (''Failed to get file paths for package '' @ packageName @ '': '' @ e
                        @ '': '' @ out)]\<rparr>))"
  using getPackageFiles_total [of sh packageName fast w]
  by (simp add: getPackageFiles_def log_Errorf_def fmt_v_def)

theorem getPackageFiles_always_returns_witness:
  "Shell (tableDevice []) [''pm'', ''path'', ''com.example.app''] emptyWorld =
     (([], Some ''exit status 1''),
      \<lparr>device = (), issued = [[''pm'', ''path'', ''com.example.app'']], logged = []\<rparr>)
   \<and> getPackageFiles (tableDevice []) ''com.example.app'' False emptyWorld =
     (Inr [],
      \<lparr>device = (), issued = [[''pm'', ''path'', ''com.example.app'']],
       logged = [Errorf ''Failed to get file paths for package com.example.app: exit status 1: '']\<rparr>)"
proof -
  have run: "Shell (tableDevice []) [''pm'', ''path'', ''com.example.app''] emptyWorld =
     (([], Some ''exit status 1''),
      \<lparr>device = (), issued = [[''pm'', ''path'', ''com.example.app'']], logged = []\<rparr>)"
    by (simp add: Shell_def tableDevice_def emptyWorld_def)
  show ?thesis
    using getPackageFiles_always_returns
            [of "tableDevice []" "''com.example.app''" False emptyWorld] run
    by simp
qed

section \<open>Digests in non-fast mode\<close>




section \<open>The attribute augmenter\<close>

lemma flagFields_cases:
  "field \<in> set flagFields \<Longrightarrow> field = ''Disabled'' \<or> field = ''System'' \<or> field = ''ThirdParty''"
  by (auto simp: flagFields_def cmds_def)

lemma Name_setFlag: "Name (setFlag field p) = Name p"
  by (simp add: setFlag_def)

lemma setFlag_idem: "setFlag field (setFlag field p) = setFlag field p"
  by (simp add: setFlag_def)

lemma reflectLoop_flag:
  assumes "field \<in> set flagFields" and "i < length ps"
  shows "reflectLoop field i PackageFieldNames ps = Inr (ps[i := setFlag field (ps ! i)])"
  using flagFields_cases [OF assms(1)] assms(2)
  by (auto simp: PackageFieldNames_def index_def SetBoolByName_def setFlag_def)

lemma rangePackages_flag:
  assumes "field \<in> set flagFields"
  shows "\<forall>i \<in> set is. i < length ps \<Longrightarrow>
     \<exists>ps'. rangePackages field n is ps = Inr ps' \<and> length ps' = length ps
       \<and> (\<forall>j < length ps. ps' ! j =
             (if j \<in> set is \<and> Name (ps ! j) = n then setFlag field (ps ! j) else ps ! j))"
proof (induction "is" arbitrary: ps)
  case Nil
  show ?case by simp
next
  case (Cons i rest)
  have i: "i < length ps" using Cons.prems by simp
  show ?case
  proof (cases "Name (ps ! i) = n")
    case False
    obtain ps' where r: "rangePackages field n rest ps = Inr ps'" "length ps' = length ps"
      "\<forall>j < length ps. ps' ! j =
             (if j \<in> set rest \<and> Name (ps ! j) = n then setFlag field (ps ! j) else ps ! j)"
      using Cons.IH [of ps] Cons.prems by auto
    have "rangePackages field n (i # rest) ps = Inr ps'"
      using i False r(1) by (simp add: index_def)
    moreover have "\<forall>j < length ps. ps' ! j =
             (if j \<in> set (i # rest) \<and> Name (ps ! j) = n then setFlag field (ps ! j) else ps ! j)"
      using r(3) False by auto
    ultimately show ?thesis using r(2) by blast
  next
    case True
    let ?ps1 = "ps[i := setFlag field (ps ! i)]"
    have len1: "length ?ps1 = length ps" by simp
    have "\<forall>k \<in> set rest. k < length ?ps1" using Cons.prems by simp
    then obtain ps' where r: "rangePackages field n rest ?ps1 = Inr ps'" "length ps' = length ?ps1"
      "\<forall>j < length ?ps1. ps' ! j =
             (if j \<in> set rest \<and> Name (?ps1 ! j) = n then setFlag field (?ps1 ! j) else ?ps1 ! j)"
      using Cons.IH [of ?ps1] by blast
    have run: "rangePackages field n (i # rest) ps = Inr ps'"
      using i True r(1) reflectLoop_flag [OF assms i] by (simp add: index_def)
    have nth: "\<forall>j < length ps. ps' ! j =
             (if j \<in> set (i # rest) \<and> Name (ps ! j) = n then setFlag field (ps ! j) else ps ! j)"
    proof (intro allI impI)
      fix j assume j: "j < length ps"
      show "ps' ! j =
             (if j \<in> set (i # rest) \<and> Name (ps ! j) = n then setFlag field (ps ! j) else ps ! j)"
      proof (cases "j = i")
        case True
        then show ?thesis using r(3) j \<open>Name (ps ! i) = n\<close>
          by (simp add: Name_setFlag setFlag_idem)
      next
        case False
        then show ?thesis using r(3) j by simp
      qed
    qed
    show ?thesis using run nth r(2) len1 by simp
  qed
qed

lemma rangePackages_all:
  assumes "field \<in> set flagFields"
  shows "rangePackages field n [0..<length ps] ps = Inr (map (markNamed field [n]) ps)"
proof -
  obtain ps' where r: "rangePackages field n [0..<length ps] ps = Inr ps'" "length ps' = length ps"
      "\<forall>j < length ps. ps' ! j =
             (if j \<in> set [0..<length ps] \<and> Name (ps ! j) = n then setFlag field (ps ! j) else ps ! j)"
    using rangePackages_flag [OF assms, of "[0..<length ps]" ps n] by auto
  have "ps' = map (markNamed field [n]) ps"
    using r(2) r(3) by (intro nth_equalityI) (simp_all add: markNamed_def)
  then show ?thesis using r(1) by simp
qed

lemma markNamed_Nil: "map (markNamed field []) ps = ps"
  by (induction ps) (simp_all add: markNamed_def)

lemma markNamed_Cons:
  "markNamed field names (markNamed field [n] p) = markNamed field (n # names) p"
  by (simp add: markNamed_def Name_setFlag setFlag_idem)

lemma mergeLines_flag:
  assumes "field \<in> set flagFields"
  shows "mergeLines field lines ps = Inr (map (markNamed field (lineValues ''package:'' lines)) ps)"
proof (induction lines arbitrary: ps)
  case Nil
  show ?case by (simp add: lineValues_Nil markNamed_Nil)
next
  case (Cons line rest)
  show ?case
    using Cons [of ps] Cons [of "map (markNamed field [TrimPrefix (TrimSpace line) ''package:'']) ps"]
    by (simp add: lineValues_Cons rangePackages_all [OF assms] markNamed_Cons o_def)
qed

lemma leadingSpace_Nil: "leadingSpace [] = 0"
  by (simp add: leadingSpace_def)

lemma trailingSpace_Nil: "trailingSpace [] = 0"
  by (simp add: trailingSpace_def)

lemma TrimSpace_Nil: "TrimSpace [] = []"
  by (simp add: TrimSpace_def leadingSpace_Nil trailingSpace_Nil)

lemma lineValues_Split_Nil: "lineValues prefix (Split [] c) = []"
  by (simp add: lineValues_def TrimSpace_Nil TrimPrefix_def)

lemma cmdsLoop_step:
  assumes "field \<in> set flagFields"
      and "Shell sh [''pm'', ''list'', ''packages'', arg] w = ((out, err), w1)"
  shows "cmdsLoop sh ((field, arg) # rest) ps w =
           cmdsLoop sh rest (map (markNamed field (lineValues ''package:'' (Split out CHR 0x0A))) ps)
             (if err \<noteq> None \<and> out = []
              then log_Infof (''Failed to get packages filtered by `'' @ arg @ ''`: '' @ fmt_v err
                          @ '': '' @ out @ [CHR 0x0A]) w1
              else w1)"
proof (cases "err \<noteq> None \<and> out = []")
  case True
  then show ?thesis
    using assms(2) by (simp add: lineValues_Split_Nil markNamed_Nil del: Split.simps)
next
  case False
  then show ?thesis
    using assms(2) mergeLines_flag [OF assms(1)] by auto
qed

lemma cmdsLoop_invariant:
  assumes "\<forall>c \<in> set cs. fst c \<in> set flagFields"
      and "Q ps"
      and step: "\<And>f a out err d ps. (f, a) \<in> set cs
                 \<Longrightarrow> fst (sh [''pm'', ''list'', ''packages'', a] d) = (out, err) \<Longrightarrow> Q ps
                 \<Longrightarrow> Q (map (markNamed f (lineValues ''package:'' (Split out CHR 0x0A))) ps)"
  shows "\<exists>ps' w'. cmdsLoop sh cs ps w = (Inr ps', w') \<and> Q ps'"
  using assms
proof (induction cs arbitrary: ps w)
  case Nil
  then show ?case by simp
next
  case (Cons c cs)
  obtain f a where c: "c = (f, a)" by (cases c)
  obtain out err w1 where s: "Shell sh [''pm'', ''list'', ''packages'', a] w = ((out, err), w1)"
    by (metis surj_pair)
  have f: "f \<in> set flagFields" using Cons.prems(1) c by simp
  have "fst (sh [''pm'', ''list'', ''packages'', a] (device w)) = (out, err)"
    using s by (auto simp: Shell_def split: prod.splits)
  then have Q1: "Q (map (markNamed f (lineValues ''package:'' (Split out CHR 0x0A))) ps)"
    using Cons.prems(3) [of f a "device w" out err ps] Cons.prems(2) c by simp
  have rest: "\<forall>c \<in> set cs. fst c \<in> set flagFields" using Cons.prems(1) by simp
  have step': "\<And>f a out err d ps. (f, a) \<in> set cs
                 \<Longrightarrow> fst (sh [''pm'', ''list'', ''packages'', a] d) = (out, err) \<Longrightarrow> Q ps
                 \<Longrightarrow> Q (map (markNamed f (lineValues ''package:'' (Split out CHR 0x0A))) ps)"
  proof -
    fix f a out err d ps
    assume "(f, a) \<in> set cs" "fst (sh [''pm'', ''list'', ''packages'', a] d) = (out, err)" "Q ps"
    then show "Q (map (markNamed f (lineValues ''package:'' (Split out CHR 0x0A))) ps)"
      by (intro Cons.prems(3)) simp_all
  qed
  show ?case
    unfolding c cmdsLoop_step [OF f s]
    by (rule Cons.IH [OF rest Q1 step'])
qed

lemma cmdsLoop_issued:
  "\<forall>c \<in> set cs. fst c \<in> set flagFields \<Longrightarrow> cmdsLoop sh cs ps w = (r, w')
   \<Longrightarrow> issued w' = issued w @ map (\<lambda>c. [''pm'', ''list'', ''packages'', snd c]) cs"
proof (induction cs arbitrary: ps w)
  case Nil
  then show ?case by simp
next
  case (Cons c cs)
  obtain f a where c: "c = (f, a)" by (cases c)
  obtain out err w1 where s: "Shell sh [''pm'', ''list'', ''packages'', a] w = ((out, err), w1)"
    by (metis surj_pair)
  have f: "f \<in> set flagFields" using Cons.prems(1) c by simp
  have rest: "\<forall>c \<in> set cs. fst c \<in> set flagFields" using Cons.prems(1) by simp
  have i1: "issued w1 = issued w @ [[''pm'', ''list'', ''packages'', a]]"
    using Shell_issued [OF s] by simp
  show ?case
    using Cons.prems(2) Cons.IH [OF rest] i1
    unfolding c cmdsLoop_step [OF f s]
    by (auto simp: log_Infof_def split: if_splits)
qed

lemma cmds_flagFields: "\<forall>c \<in> set cmds. fst c \<in> set flagFields"
  by (simp add: flagFields_def)

lemma flagOf_setFlag_same: "field \<in> set flagFields \<Longrightarrow> flagOf field (setFlag field p)"
  by (auto dest!: flagFields_cases simp: flagOf_def setFlag_def)

lemma flagOf_setFlag_other:
  "f \<noteq> field \<Longrightarrow> flagOf field (setFlag f p) = flagOf field p"
  by (auto simp: flagOf_def setFlag_def)

lemma cmds_in_flagFields: "(field, arg) \<in> set cmds \<Longrightarrow> field \<in> set flagFields"
  by (force simp: flagFields_def)

lemma cmds_arg_determines_field:
  "(f, a) \<in> set cmds \<Longrightarrow> (field, a) \<in> set cmds \<Longrightarrow> f = field"
  by (auto simp: cmds_def)

lemma Name_markNamed: "Name (markNamed field names p) = Name p"
  by (simp add: markNamed_def Name_setFlag)

lemma cmdsLoop_names:
  "\<exists>ps' w'. cmdsLoop sh cmds packages w = (Inr ps', w') \<and> map Name ps' = map Name packages"
proof (rule cmdsLoop_invariant [OF cmds_flagFields])
  show "map Name packages = map Name packages" by simp
next
  fix f a out err d and ps :: "Package list"
  assume "map Name ps = map Name packages"
  then show "map Name (map (markNamed f (lineValues ''package:'' (Split out CHR 0x0A))) ps)
             = map Name packages"
    by (simp add: Name_markNamed o_def del: Split.simps)
qed

lemma markNamed_keeps_flag:
  "f \<noteq> field \<Longrightarrow> flagOf field (markNamed f names p) = flagOf field p"
  by (simp add: markNamed_def flagOf_setFlag_other)

lemma skipped_step_keeps_flag:
  assumes "(field, arg) \<in> set cmds"
      and "\<forall>d. \<exists>e. fst (sh [''pm'', ''list'', ''packages'', arg] d) = ([], Some e)"
      and "(f, a) \<in> set cmds"
      and "fst (sh [''pm'', ''list'', ''packages'', a] d) = (out, err)"
  shows "flagOf field (markNamed f (lineValues ''package:'' (Split out CHR 0x0A)) p)
         = flagOf field p"
proof (cases "a = arg")
  case True
  then have "out = []" using assms(2) assms(4) by (metis fst_conv)
  then show ?thesis by (simp add: lineValues_Split_Nil markNamed_def del: Split.simps)
next
  case False
  then have "f \<noteq> field" using assms(1) assms(3) by (auto simp: cmds_def)
  then show ?thesis by (rule markNamed_keeps_flag)
qed

section \<open>The listing loop and the fallback\<close>

lemma GetPackages_primary_ok:
  assumes "Shell sh primaryQuery w = ((out, None), w1)"
  shows "GetPackages sh fast w = listAndAugment sh fast True out w1"
  using assms
  by (simp add: GetPackages_def listAndAugment_def primaryQuery_def bindA_def ShellA_def ret_def)

lemma GetPackages_reduced_ok:
  assumes "Shell sh primaryQuery w = ((out0, Some e0), w1)"
      and "Shell sh reducedQuery w1 = ((out, None), w2)"
  shows "GetPackages sh fast w = listAndAugment sh fast False out w2"
  using assms
  by (simp add: GetPackages_def listAndAugment_def primaryQuery_def reducedQuery_def bindA_def
      ShellA_def ret_def)

lemma GetPackages_both_fail:
  assumes "Shell sh primaryQuery w = ((out0, Some e0), w1)"
      and "Shell sh reducedQuery w1 = ((out, Some e), w2)"
  shows "GetPackages sh fast w =
           (Inr ([], Some (''failed to launch `pm list packages` command: '' @ e)), w2)"
  using assms
  by (simp add: GetPackages_def primaryQuery_def reducedQuery_def bindA_def ShellA_def ret_def
      fmt_v_def)

lemma listLoop_Inr:
  assumes "listLoop sh fast wi lines acc w = (Inr ps, w')"
  shows "\<exists>new. ps = acc @ new \<and> map nameInstallerUID new = parsedRecords wi lines
           \<and> (\<forall>p \<in> set new. \<not> Disabled p \<and> \<not> System p \<and> \<not> ThirdParty p)
           \<and> (\<forall>line \<in> set lines. \<exists>t. parseLine wi line = Inr t)"
  using assms
proof (induction lines arbitrary: acc w)
  case Nil
  then show ?case by (simp add: parsedRecords_def)
next
  case (Cons line rest)
  show ?case
  proof (cases "parseLine wi line")
    case (Inl e)
    then show ?thesis using Cons.prems by simp
  next
    case (Inr t)
    obtain n i u where t: "t = (n, i, u)" by (cases t)
    show ?thesis
    proof (cases "n = []")
      case True
      then have "listLoop sh fast wi rest acc w = (Inr ps, w')"
        using Cons.prems Inr t by simp
      from Cons.IH [OF this] show ?thesis
        using Inr t True by (auto simp: parsedRecords_def)
    next
      case False
      obtain files w1 where g: "getPackageFiles sh n fast w = (Inr files, w1)"
        using getPackageFiles_total by blast
      let ?p = "\<lparr>Name = n, Files = files, Installer = i, UID = u, Disabled = False,
                 System = False, ThirdParty = False\<rparr>"
      have "listLoop sh fast wi rest (acc @ [?p]) w1 = (Inr ps, w')"
        using Cons.prems Inr t False g by simp
      from Cons.IH [OF this] obtain new where new: "ps = (acc @ [?p]) @ new"
        "map nameInstallerUID new = parsedRecords wi rest"
        "\<forall>p \<in> set new. \<not> Disabled p \<and> \<not> System p \<and> \<not> ThirdParty p"
        "\<forall>line \<in> set rest. \<exists>t. parseLine wi line = Inr t"
        by blast
      have "ps = acc @ (?p # new)" using new(1) by simp
      moreover have "map nameInstallerUID (?p # new) = parsedRecords wi (line # rest)"
        using new(2) Inr t False by (simp add: parsedRecords_def nameInstallerUID_def)
      moreover have "\<forall>p \<in> set (?p # new). \<not> Disabled p \<and> \<not> System p \<and> \<not> ThirdParty p"
        using new(3) by simp
      moreover have "\<forall>l \<in> set (line # rest). \<exists>t. parseLine wi l = Inr t"
        using new(4) Inr t by simp
      ultimately show ?thesis by blast
    qed
  qed
qed

lemma listLoop_total:
  assumes "\<forall>line \<in> set lines. \<exists>t. parseLine wi line = Inr t"
  shows "\<exists>ps w'. listLoop sh fast wi lines acc w = (Inr ps, w')"
  using assms
proof (induction lines arbitrary: acc w)
  case Nil
  then show ?case by simp
next
  case (Cons line rest)
  obtain n i u where t: "parseLine wi line = Inr (n, i, u)"
    using Cons.prems by (metis list.set_intros(1) prod_cases3)
  have rest: "\<forall>line \<in> set rest. \<exists>t. parseLine wi line = Inr t" using Cons.prems by simp
  show ?case
  proof (cases "n = []")
    case True
    then show ?thesis using Cons.IH [OF rest, of acc w] t by simp
  next
    case False
    obtain files w1 where g: "getPackageFiles sh n fast w = (Inr files, w1)"
      using getPackageFiles_total by blast
    show ?thesis
      using Cons.IH [OF rest, of _ w1] t False g by simp
  qed
qed

lemma listAndAugment_Inr:
  assumes "listAndAugment sh fast wi out w1 = (Inr (pkgs, err), w')"
  shows "err = None \<and> (\<exists>ps0 w2. listLoop sh fast wi (Split out CHR 0x0A) [] w1 = (Inr ps0, w2)
            \<and> cmdsLoop sh cmds ps0 w2 = (Inr pkgs, w'))"
  using assms
  by (auto simp: listAndAugment_def bindA_def ret_def split: prod.splits sum.splits)

lemma GetPackages_Inr:
  assumes "GetPackages sh fast w = (Inr (pkgs, err), w')"
  shows "(pkgs = [] \<and> err \<noteq> None)
         \<or> (err = None \<and> (\<exists>wi out w1 ps0 w2.
               listLoop sh fast wi (Split out CHR 0x0A) [] w1 = (Inr ps0, w2)
               \<and> cmdsLoop sh cmds ps0 w2 = (Inr pkgs, w')))"
proof -
  obtain out0 e0 w1 where s1: "Shell sh primaryQuery w = ((out0, e0), w1)" by (metis surj_pair)
  show ?thesis
  proof (cases e0)
    case None
    then have "listAndAugment sh fast True out0 w1 = (Inr (pkgs, err), w')"
      using GetPackages_primary_ok [of sh w out0 w1 fast] s1 assms by simp
    from listAndAugment_Inr [OF this] show ?thesis by blast
  next
    case (Some e0')
    obtain out e w2 where s2: "Shell sh reducedQuery w1 = ((out, e), w2)" by (metis surj_pair)
    show ?thesis
    proof (cases e)
      case None
      then have "listAndAugment sh fast False out w2 = (Inr (pkgs, err), w')"
        using GetPackages_reduced_ok [of sh w out0 e0' w1 out w2 fast] s1 s2 Some assms by simp
      from listAndAugment_Inr [OF this] show ?thesis by blast
    next
      case (Some e')
      then show ?thesis
        using GetPackages_both_fail [of sh w out0 e0' w1 out e' w2 fast] s1 s2 \<open>e0 = Some e0'\<close> assms
        by simp
    qed
  qed
qed

lemma GetPackages_invariant:
  assumes run: "GetPackages sh fast w = (Inr (pkgs, err), w')"
      and init: "\<And>ps. \<forall>p \<in> set ps. \<not> Disabled p \<and> \<not> System p \<and> \<not> ThirdParty p \<Longrightarrow> Q ps"
      and step: "\<And>f a out err d ps. (f, a) \<in> set cmds
                 \<Longrightarrow> fst (sh [''pm'', ''list'', ''packages'', a] d) = (out, err) \<Longrightarrow> Q ps
                 \<Longrightarrow> Q (map (markNamed f (lineValues ''package:'' (Split out CHR 0x0A))) ps)"
  shows "Q pkgs"
proof -
  from GetPackages_Inr [OF run] show ?thesis
  proof
    assume "pkgs = [] \<and> err \<noteq> None"
    then show ?thesis using init [of "[]"] by simp
  next
    assume "err = None \<and> (\<exists>wi out w1 ps0 w2.
               listLoop sh fast wi (Split out CHR 0x0A) [] w1 = (Inr ps0, w2)
               \<and> cmdsLoop sh cmds ps0 w2 = (Inr pkgs, w'))"
    then obtain wi out w1 ps0 w2 where
      l: "listLoop sh fast wi (Split out CHR 0x0A) [] w1 = (Inr ps0, w2)" and
      c: "cmdsLoop sh cmds ps0 w2 = (Inr pkgs, w')" by blast
    have "\<forall>p \<in> set ps0. \<not> Disabled p \<and> \<not> System p \<and> \<not> ThirdParty p"
      using listLoop_Inr [OF l] by auto
    then have "Q ps0" by (rule init)
    from cmdsLoop_invariant [of cmds Q ps0 sh w2, OF cmds_flagFields this step]
    show ?thesis using c by auto
  qed
qed

section \<open>Merging the filtered listings\<close>

lemma flagOf_markNamed_same:
  "f \<in> set flagFields \<Longrightarrow> flagOf f (markNamed f names p) = (Name p \<in> set names \<or> flagOf f p)"
  by (simp add: markNamed_def flagOf_setFlag_same)

lemma cmdsLoop_answers:
  assumes "answers sh m"
  shows "\<exists>w'. cmdsLoop sh cmds packages w =
           (Inr (map (\<lambda>p. markNamed ''ThirdParty''
                            (lineValues ''package:''
                               (Split (fst (m [''pm'', ''list'', ''packages'', ''-3''])) CHR 0x0A))
                          (markNamed ''System''
                            (lineValues ''package:''
                               (Split (fst (m [''pm'', ''list'', ''packages'', ''-s''])) CHR 0x0A))
                          (markNamed ''Disabled''
                            (lineValues ''package:''
                               (Split (fst (m [''pm'', ''list'', ''packages'', ''-d''])) CHR 0x0A))
                             p))) packages), w')"
proof -
  have fD: "''Disabled'' \<in> set flagFields" and fS: "''System'' \<in> set flagFields"
    and fT: "''ThirdParty'' \<in> set flagFields"
    by (simp_all add: flagFields_def cmds_def)
  obtain o1 e1 where m1: "m [''pm'', ''list'', ''packages'', ''-d''] = (o1, e1)"
    by (cases "m [''pm'', ''list'', ''packages'', ''-d'']")
  obtain o2 e2 where m2: "m [''pm'', ''list'', ''packages'', ''-s''] = (o2, e2)"
    by (cases "m [''pm'', ''list'', ''packages'', ''-s'']")
  obtain o3 e3 where m3: "m [''pm'', ''list'', ''packages'', ''-3''] = (o3, e3)"
    by (cases "m [''pm'', ''list'', ''packages'', ''-3'']")
  have step: "\<exists>w1. Shell sh cmd v = (m cmd, w1)" for cmd and v :: "'a world"
    using Shell_answers [OF assms] by blast
  obtain w1 where s1: "Shell sh [''pm'', ''list'', ''packages'', ''-d''] w = ((o1, e1), w1)"
    using step [of "[''pm'', ''list'', ''packages'', ''-d'']" w] m1 by auto
  let ?w1 = "if e1 \<noteq> None \<and> o1 = []
             then log_Infof (''Failed to get packages filtered by `'' @ ''-d'' @ ''`: '' @ fmt_v e1
                          @ '': '' @ o1 @ [CHR 0x0A]) w1
             else w1"
  obtain w2 where s2: "Shell sh [''pm'', ''list'', ''packages'', ''-s''] ?w1 = ((o2, e2), w2)"
    using step [of "[''pm'', ''list'', ''packages'', ''-s'']" ?w1] m2 by auto
  let ?w2 = "if e2 \<noteq> None \<and> o2 = []
             then log_Infof (''Failed to get packages filtered by `'' @ ''-s'' @ ''`: '' @ fmt_v e2
                          @ '': '' @ o2 @ [CHR 0x0A]) w2
             else w2"
  obtain w3 where s3: "Shell sh [''pm'', ''list'', ''packages'', ''-3''] ?w2 = ((o3, e3), w3)"
    using step [of "[''pm'', ''list'', ''packages'', ''-3'']" ?w2] m3 by auto
  show ?thesis
    unfolding cmds_def cmdsLoop_step [OF fD s1] cmdsLoop_step [OF fS s2] cmdsLoop_step [OF fT s3]
    by (simp add: m1 m2 m3 o_def del: Split.simps)
qed

text \<open>
  C3. One filtered query, whatever the base records and whatever the device answers: the
  loop returns the base records in the same order and number, a record whose name is among
  the values of the answer has the flag of the query set, and every other record is
  unchanged (its flag stays as it was, false for the records the listing built). A value
  of the answer that names no record changes nothing: no record is added and nothing fails.
  Over the three queries together, on a device that answers from \<open>m\<close>, the flag of a
  query is true in a record of the result exactly when the name of the record is among the
  values of the answer to that query, or the flag was true before.
\<close>

theorem attribute_merge:
  assumes "(field, arg) \<in> set cmds"
  shows "(\<forall>out err w1. Shell sh [''pm'', ''list'', ''packages'', arg] w = ((out, err), w1) \<longrightarrow>
           (\<exists>ps' w'. cmdsLoop sh [(field, arg)] packages w = (Inr ps', w')
             \<and> ps' = map (markNamed field (lineValues ''package:'' (Split out CHR 0x0A))) packages
             \<and> length ps' = length packages
             \<and> (\<forall>i < length packages.
                   Name (ps' ! i) = Name (packages ! i)
                 \<and> (Name (packages ! i) \<in> set (lineValues ''package:'' (Split out CHR 0x0A))
                      \<longrightarrow> flagOf field (ps' ! i))
                 \<and> (Name (packages ! i) \<notin> set (lineValues ''package:'' (Split out CHR 0x0A))
                      \<longrightarrow> ps' ! i = packages ! i))))
       \<and> (\<forall>m. answers sh m \<longrightarrow>
           (\<exists>ps' w'. cmdsLoop sh cmds packages w = (Inr ps', w')
             \<and> length ps' = length packages
             \<and> (\<forall>i < length packages.
                   Name (ps' ! i) = Name (packages ! i)
                 \<and> flagOf field (ps' ! i) =
                     (Name (packages ! i) \<in> set (lineValues ''package:''
                        (Split (fst (m [''pm'', ''list'', ''packages'', arg])) CHR 0x0A))
                      \<or> flagOf field (packages ! i)))))"
proof (intro conjI allI impI)
  fix out err w1
  assume s: "Shell sh [''pm'', ''list'', ''packages'', arg] w = ((out, err), w1)"
  have f: "field \<in> set flagFields" using assms by (rule cmds_in_flagFields)
  let ?names = "lineValues ''package:'' (Split out CHR 0x0A)"
  have nth: "\<forall>i < length packages.
                 Name (map (markNamed field ?names) packages ! i) = Name (packages ! i)
               \<and> (Name (packages ! i) \<in> set ?names
                    \<longrightarrow> flagOf field (map (markNamed field ?names) packages ! i))
               \<and> (Name (packages ! i) \<notin> set ?names
                    \<longrightarrow> map (markNamed field ?names) packages ! i = packages ! i)"
    using flagOf_setFlag_same [OF f] by (simp add: markNamed_def Name_setFlag)
  show "\<exists>ps' w'. cmdsLoop sh [(field, arg)] packages w = (Inr ps', w')
             \<and> ps' = map (markNamed field ?names) packages
             \<and> length ps' = length packages
             \<and> (\<forall>i < length packages.
                   Name (ps' ! i) = Name (packages ! i)
                 \<and> (Name (packages ! i) \<in> set ?names \<longrightarrow> flagOf field (ps' ! i))
                 \<and> (Name (packages ! i) \<notin> set ?names \<longrightarrow> ps' ! i = packages ! i))"
    unfolding cmdsLoop_step [OF f s] using nth by simp
next
  fix m assume a: "answers sh m"
  let ?N = "\<lambda>arg. lineValues ''package:''
                     (Split (fst (m [''pm'', ''list'', ''packages'', arg])) CHR 0x0A)"
  let ?g = "\<lambda>p. markNamed ''ThirdParty'' (?N ''-3'')
                  (markNamed ''System'' (?N ''-s'') (markNamed ''Disabled'' (?N ''-d'') p))"
  obtain w' where c: "cmdsLoop sh cmds packages w = (Inr (map ?g packages), w')"
    using cmdsLoop_answers [OF a] by blast
  have fD: "''Disabled'' \<in> set flagFields" and fS: "''System'' \<in> set flagFields"
    and fT: "''ThirdParty'' \<in> set flagFields"
    by (simp_all add: flagFields_def cmds_def)
  have g: "Name (?g p) = Name p
           \<and> flagOf field (?g p) = (Name p \<in> set (?N arg) \<or> flagOf field p)" for p
  proof -
    consider "field = ''Disabled'' \<and> arg = ''-d''" | "field = ''System'' \<and> arg = ''-s''"
      | "field = ''ThirdParty'' \<and> arg = ''-3''"
      using assms by (auto simp: cmds_def)
    then show ?thesis
    proof cases
      case 1
      then show ?thesis
        by (simp add: Name_markNamed markNamed_keeps_flag flagOf_markNamed_same [OF fD]
            del: Split.simps)
    next
      case 2
      then show ?thesis
        by (simp add: Name_markNamed markNamed_keeps_flag flagOf_markNamed_same [OF fS]
            del: Split.simps)
    next
      case 3
      then show ?thesis
        by (simp add: Name_markNamed markNamed_keeps_flag flagOf_markNamed_same [OF fT]
            del: Split.simps)
    qed
  qed
  show "\<exists>ps' w'. cmdsLoop sh cmds packages w = (Inr ps', w')
             \<and> length ps' = length packages
             \<and> (\<forall>i < length packages.
                   Name (ps' ! i) = Name (packages ! i)
                 \<and> flagOf field (ps' ! i) =
                     (Name (packages ! i) \<in> set (?N arg) \<or> flagOf field (packages ! i)))"
    unfolding c using g by simp
qed

theorem attribute_merge_witness:
  "(''System'', ''-s'') \<in> set cmds
   \<and> Shell systemQueryDevice [''pm'', ''list'', ''packages'', ''-s''] emptyWorld =
       ((''package:B'' @ [CHR 0x0A] @ ''package:D'', None),
        \<lparr>device = (), issued = [[''pm'', ''list'', ''packages'', ''-s'']], logged = []\<rparr>)
   \<and> cmdsLoop systemQueryDevice [(''System'', ''-s'')]
        [basePackage ''A'', basePackage ''B'', basePackage ''C''] emptyWorld =
       (Inr [basePackage ''A'', (basePackage ''B'')\<lparr>System := True\<rparr>, basePackage ''C''],
        \<lparr>device = (), issued = [[''pm'', ''list'', ''packages'', ''-s'']], logged = []\<rparr>)
   \<and> lineValues ''package:'' (Split (''package:B'' @ [CHR 0x0A] @ ''package:D'') CHR 0x0A)
       = [''B'', ''D'']
   \<and> fst (cmdsLoop systemQueryDevice cmds
             [basePackage ''A'', basePackage ''B'', basePackage ''C''] emptyWorld) =
       Inr [basePackage ''A'', (basePackage ''B'')\<lparr>System := True\<rparr>, basePackage ''C'']"
proof -
  let ?ps = "[basePackage ''A'', basePackage ''B'', basePackage ''C'']"
  have h1: "(''System'', ''-s'') \<in> set cmds" by (simp add: cmds_def)
  have h2: "Shell systemQueryDevice [''pm'', ''list'', ''packages'', ''-s''] emptyWorld =
       ((''package:B'' @ [CHR 0x0A] @ ''package:D'', None),
        \<lparr>device = (), issued = [[''pm'', ''list'', ''packages'', ''-s'']], logged = []\<rparr>)"
    by code_simp
  have h3: "lineValues ''package:'' (Split (''package:B'' @ [CHR 0x0A] @ ''package:D'') CHR 0x0A)
       = [''B'', ''D'']"
    by code_simp
  have h4: "map (markNamed ''System'' [''B'', ''D'']) ?ps
            = [basePackage ''A'', (basePackage ''B'')\<lparr>System := True\<rparr>, basePackage ''C'']"
    by (simp add: markNamed_def basePackage_def setFlag_def)
  note T = attribute_merge [OF h1, where sh = systemQueryDevice and w = emptyWorld
                                     and packages = ?ps]
  obtain ps' w' where r: "cmdsLoop systemQueryDevice [(''System'', ''-s'')] ?ps emptyWorld
                            = (Inr ps', w')"
    "ps' = map (markNamed ''System''
                 (lineValues ''package:'' (Split (''package:B'' @ [CHR 0x0A] @ ''package:D'') CHR 0x0A)))
             ?ps"
    using T h2 by blast
  have h5: "cmdsLoop systemQueryDevice [(''System'', ''-s'')] ?ps emptyWorld =
       (Inr [basePackage ''A'', (basePackage ''B'')\<lparr>System := True\<rparr>, basePackage ''C''],
        \<lparr>device = (), issued = [[''pm'', ''list'', ''packages'', ''-s'']], logged = []\<rparr>)"
    by code_simp
  have h6: "fst (cmdsLoop systemQueryDevice cmds ?ps emptyWorld) =
       Inr [basePackage ''A'', (basePackage ''B'')\<lparr>System := True\<rparr>, basePackage ''C'']"
    by code_simp
  have "ps' = [basePackage ''A'', (basePackage ''B'')\<lparr>System := True\<rparr>, basePackage ''C'']"
    using r(2) unfolding h3 h4 .
  moreover have "\<exists>qs' v'. cmdsLoop systemQueryDevice cmds ?ps emptyWorld = (Inr qs', v')
                   \<and> length qs' = length ?ps"
    using T answers_tableDevice [of "[([''pm'', ''list'', ''packages'', ''-s''],
                                       (''package:B'' @ [CHR 0x0A] @ ''package:D'', None))]"]
    unfolding systemQueryDevice_def by blast
  ultimately show ?thesis using h1 h2 h3 h5 h6 r(1) by (simp del: cmdsLoop.simps Split.simps)
qed

text \<open>
  C8. A filtered query that fails without output is skipped: the records are passed on
  unchanged to the remaining queries, with one line added to the log. The three queries are
  always issued, in the order \<open>-d\<close>, \<open>-s\<close>, \<open>-3\<close>, the loop always
  returns, and on a device where the query of a flag always fails without output that flag
  is unchanged by the loop and false in every record that \<open>GetPackages\<close> returns.
\<close>

theorem failed_flag_query_is_skipped:
  assumes "(field, arg) \<in> set cmds"
  shows "(\<forall>e w1 rest. Shell sh [''pm'', ''list'', ''packages'', arg] w = (([], Some e), w1) \<longrightarrow>
            cmdsLoop sh ((field, arg) # rest) packages w =
              cmdsLoop sh rest packages
                (w1\<lparr>logged := logged w1 @
                   [Infof (''Failed to get packages filtered by `'' @ arg @ ''`: '' @ e @ '': ''
                           @ [CHR 0x0A])]\<rparr>))
       \<and> (\<exists>ps' w'. cmdsLoop sh cmds packages w = (Inr ps', w')
            \<and> issued w' = issued w @ [[''pm'', ''list'', ''packages'', ''-d''],
                                       [''pm'', ''list'', ''packages'', ''-s''],
                                       [''pm'', ''list'', ''packages'', ''-3'']]
            \<and> map Name ps' = map Name packages
            \<and> ((\<forall>d. \<exists>e. fst (sh [''pm'', ''list'', ''packages'', arg] d) = ([], Some e))
                  \<longrightarrow> map (flagOf field) ps' = map (flagOf field) packages))
       \<and> ((\<forall>d. \<exists>e. fst (sh [''pm'', ''list'', ''packages'', arg] d) = ([], Some e)) \<longrightarrow>
            (\<forall>pkgs err w'. GetPackages sh fast w = (Inr (pkgs, err), w') \<longrightarrow>
               (\<forall>p \<in> set pkgs. \<not> flagOf field p)))"
proof (intro conjI allI impI)
  fix e w1 rest
  assume "Shell sh [''pm'', ''list'', ''packages'', arg] w = (([], Some e), w1)"
  then show "cmdsLoop sh ((field, arg) # rest) packages w =
              cmdsLoop sh rest packages
                (w1\<lparr>logged := logged w1 @
                   [Infof (''Failed to get packages filtered by `'' @ arg @ ''`: '' @ e @ '': ''
                           @ [CHR 0x0A])]\<rparr>)"
    by (simp add: log_Infof_def fmt_v_def)
next
  obtain ps' w' where r: "cmdsLoop sh cmds packages w = (Inr ps', w')"
    "map Name ps' = map Name packages"
    using cmdsLoop_names by blast
  have i: "issued w' = issued w @ [[''pm'', ''list'', ''packages'', ''-d''],
                                       [''pm'', ''list'', ''packages'', ''-s''],
                                       [''pm'', ''list'', ''packages'', ''-3'']]"
    using cmdsLoop_issued [OF cmds_flagFields r(1)] by (simp add: cmds_def)
  have k: "map (flagOf field) ps' = map (flagOf field) packages"
    if stat: "\<forall>d. \<exists>e. fst (sh [''pm'', ''list'', ''packages'', arg] d) = ([], Some e)"
  proof -
    have "\<exists>ps'' w''. cmdsLoop sh cmds packages w = (Inr ps'', w'')
            \<and> map (flagOf field) ps'' = map (flagOf field) packages"
    proof (rule cmdsLoop_invariant [OF cmds_flagFields])
      show "map (flagOf field) packages = map (flagOf field) packages" by simp
    next
      fix f a out err d and ps :: "Package list"
      assume fa: "(f, a) \<in> set cmds"
         and ans: "fst (sh [''pm'', ''list'', ''packages'', a] d) = (out, err)"
         and inv: "map (flagOf field) ps = map (flagOf field) packages"
      have "flagOf field (markNamed f (lineValues ''package:'' (Split out CHR 0x0A)) p)
              = flagOf field p" for p
        using assms stat fa ans by (rule skipped_step_keeps_flag)
      then show "map (flagOf field) (map (markNamed f (lineValues ''package:'' (Split out CHR 0x0A))) ps)
                   = map (flagOf field) packages"
        using inv by (simp add: o_def del: Split.simps)
    qed
    then show ?thesis using r(1) by auto
  qed
  show "\<exists>ps' w'. cmdsLoop sh cmds packages w = (Inr ps', w')
            \<and> issued w' = issued w @ [[''pm'', ''list'', ''packages'', ''-d''],
                                       [''pm'', ''list'', ''packages'', ''-s''],
                                       [''pm'', ''list'', ''packages'', ''-3'']]
            \<and> map Name ps' = map Name packages
            \<and> ((\<forall>d. \<exists>e. fst (sh [''pm'', ''list'', ''packages'', arg] d) = ([], Some e))
                  \<longrightarrow> map (flagOf field) ps' = map (flagOf field) packages)"
    using r i k by blast
next
  fix pkgs err w'
  assume stat: "\<forall>d. \<exists>e. fst (sh [''pm'', ''list'', ''packages'', arg] d) = ([], Some e)"
     and run: "GetPackages sh fast w = (Inr (pkgs, err), w')"
  show "\<forall>p \<in> set pkgs. \<not> flagOf field p"
  proof (rule GetPackages_invariant [OF run])
    fix ps :: "Package list"
    assume "\<forall>p \<in> set ps. \<not> Disabled p \<and> \<not> System p \<and> \<not> ThirdParty p"
    then show "\<forall>p \<in> set ps. \<not> flagOf field p" by (simp add: flagOf_def)
  next
    fix f a out err d and ps :: "Package list"
    assume fa: "(f, a) \<in> set cmds"
       and ans: "fst (sh [''pm'', ''list'', ''packages'', a] d) = (out, err)"
       and inv: "\<forall>p \<in> set ps. \<not> flagOf field p"
    have "flagOf field (markNamed f (lineValues ''package:'' (Split out CHR 0x0A)) p)
            = flagOf field p" for p
      using assms stat fa ans by (rule skipped_step_keeps_flag)
    then show "\<forall>p \<in> set (map (markNamed f (lineValues ''package:'' (Split out CHR 0x0A))) ps).
                 \<not> flagOf field p"
      using inv by (simp del: Split.simps)
  qed
qed

theorem failed_flag_query_is_skipped_witness:
  "(''System'', ''-s'') \<in> set cmds
   \<and> fst (Shell systemQueryFailsDevice [''pm'', ''list'', ''packages'', ''-s''] emptyWorld)
       = ([], Some ''exit status 1'')
   \<and> fst (GetPackages systemQueryFailsDevice True emptyWorld) =
       Inr ([\<lparr>Name = ''com.example.app'', Files = [], Installer = ''com.android.vending'',
              UID = 10123, Disabled = False, System = False, ThirdParty = True\<rparr>,
             \<lparr>Name = ''com.android.phone'', Files = [], Installer = ''null'',
              UID = 1001, Disabled = True, System = False, ThirdParty = False\<rparr>], None)
   \<and> \<not> flagOf ''System''
         \<lparr>Name = ''com.example.app'', Files = [], Installer = ''com.android.vending'',
          UID = 10123, Disabled = False, System = False, ThirdParty = True\<rparr>
   \<and> \<not> flagOf ''System''
         \<lparr>Name = ''com.android.phone'', Files = [], Installer = ''null'',
          UID = 1001, Disabled = True, System = False, ThirdParty = False\<rparr>
   \<and> logged (snd (cmdsLoop systemQueryFailsDevice cmds [] emptyWorld)) =
       [Infof (''Failed to get packages filtered by `-s`: exit status 1: '' @ [CHR 0x0A])]"
proof -
  let ?p1 = "\<lparr>Name = ''com.example.app'', Files = [], Installer = ''com.android.vending'',
              UID = 10123, Disabled = False, System = False, ThirdParty = True\<rparr>"
  let ?p2 = "\<lparr>Name = ''com.android.phone'', Files = [], Installer = ''null'',
              UID = 1001, Disabled = True, System = False, ThirdParty = False\<rparr>"
  have h1: "(''System'', ''-s'') \<in> set cmds" by (simp add: cmds_def)
  have stat: "\<forall>d. \<exists>e. fst (systemQueryFailsDevice [''pm'', ''list'', ''packages'', ''-s''] d)
                         = ([], Some e)"
    by (simp add: systemQueryFailsDevice_def tableDevice_def)
  have sh: "fst (Shell systemQueryFailsDevice [''pm'', ''list'', ''packages'', ''-s''] emptyWorld)
       = ([], Some ''exit status 1'')"
    by code_simp
  have run: "fst (GetPackages systemQueryFailsDevice True emptyWorld) = Inr ([?p1, ?p2], None)"
    by code_simp
  have lg: "logged (snd (cmdsLoop systemQueryFailsDevice cmds [] emptyWorld)) =
       [Infof (''Failed to get packages filtered by `-s`: exit status 1: '' @ [CHR 0x0A])]"
    by code_simp
  have run': "GetPackages systemQueryFailsDevice True emptyWorld =
                (Inr ([?p1, ?p2], None), snd (GetPackages systemQueryFailsDevice True emptyWorld))"
    using run by (simp add: prod_eq_iff)
  have "\<forall>p \<in> set [?p1, ?p2]. \<not> flagOf ''System'' p"
    using failed_flag_query_is_skipped
            [OF h1, where sh = systemQueryFailsDevice and w = emptyWorld and fast = True
               and packages = "[]"] stat run'
    by blast
  then show ?thesis using h1 sh run lg by simp
qed

lemma markNamed_alike:
  assumes "Name p = Name q"
      and "Disabled p = Disabled q \<and> System p = System q \<and> ThirdParty p = ThirdParty q"
  shows "Disabled (markNamed f names p) = Disabled (markNamed f names q)
         \<and> System (markNamed f names p) = System (markNamed f names q)
         \<and> ThirdParty (markNamed f names p) = ThirdParty (markNamed f names q)"
  using assms by (simp add: markNamed_def setFlag_def)

text \<open>
  C10. The scan over the records does not stop at the first match: every record whose name
  is among the values of a filtered listing has the flag set, however many records bear
  that name. Hence two records with the same name in the result of \<open>GetPackages\<close>
  always agree on \<open>Disabled\<close>, \<open>System\<close> and \<open>ThirdParty\<close>.
\<close>

theorem duplicates_flagged_alike:
  "(field \<in> set flagFields \<longrightarrow>
      (\<exists>ps'. mergeLines field lines packages = Inr ps' \<and> length ps' = length packages
         \<and> (\<forall>i < length packages.
               Name (packages ! i) \<in> set (lineValues ''package:'' lines)
               \<longrightarrow> flagOf field (ps' ! i))))
   \<and> (\<forall>pkgs err w'. GetPackages sh fast w = (Inr (pkgs, err), w') \<longrightarrow>
         (\<forall>p \<in> set pkgs. \<forall>q \<in> set pkgs. Name p = Name q \<longrightarrow>
            Disabled p = Disabled q \<and> System p = System q \<and> ThirdParty p = ThirdParty q))"
proof (intro conjI allI impI)
  assume f: "field \<in> set flagFields"
  have "\<forall>i < length packages.
               Name (packages ! i) \<in> set (lineValues ''package:'' lines)
               \<longrightarrow> flagOf field (map (markNamed field (lineValues ''package:'' lines)) packages ! i)"
    using flagOf_setFlag_same [OF f] by (simp add: markNamed_def)
  then show "\<exists>ps'. mergeLines field lines packages = Inr ps' \<and> length ps' = length packages
         \<and> (\<forall>i < length packages.
               Name (packages ! i) \<in> set (lineValues ''package:'' lines)
               \<longrightarrow> flagOf field (ps' ! i))"
    unfolding mergeLines_flag [OF f] by simp
next
  fix pkgs err w'
  assume run: "GetPackages sh fast w = (Inr (pkgs, err), w')"
  show "\<forall>p \<in> set pkgs. \<forall>q \<in> set pkgs. Name p = Name q \<longrightarrow>
            Disabled p = Disabled q \<and> System p = System q \<and> ThirdParty p = ThirdParty q"
  proof (rule GetPackages_invariant [OF run])
    fix ps :: "Package list"
    assume "\<forall>p \<in> set ps. \<not> Disabled p \<and> \<not> System p \<and> \<not> ThirdParty p"
    then show "\<forall>p \<in> set ps. \<forall>q \<in> set ps. Name p = Name q \<longrightarrow>
            Disabled p = Disabled q \<and> System p = System q \<and> ThirdParty p = ThirdParty q"
      by simp
  next
    fix f a out err d and ps :: "Package list"
    let ?g = "markNamed f (lineValues ''package:'' (Split out CHR 0x0A))"
    assume inv: "\<forall>p \<in> set ps. \<forall>q \<in> set ps. Name p = Name q \<longrightarrow>
            Disabled p = Disabled q \<and> System p = System q \<and> ThirdParty p = ThirdParty q"
    show "\<forall>p \<in> set (map ?g ps). \<forall>q \<in> set (map ?g ps). Name p = Name q \<longrightarrow>
            Disabled p = Disabled q \<and> System p = System q \<and> ThirdParty p = ThirdParty q"
    proof (intro ballI impI)
      fix p' q' assume p': "p' \<in> set (map ?g ps)" and q': "q' \<in> set (map ?g ps)"
        and n: "Name p' = Name q'"
      obtain p where p: "p \<in> set ps" "p' = ?g p" using p' by auto
      obtain q where q: "q \<in> set ps" "q' = ?g q" using q' by auto
      have nn: "Name p = Name q" using n p(2) q(2) by (simp add: Name_markNamed del: Split.simps)
      have "Disabled p = Disabled q \<and> System p = System q \<and> ThirdParty p = ThirdParty q"
        using inv p(1) q(1) nn by blast
      from markNamed_alike [OF nn this]
      show "Disabled p' = Disabled q' \<and> System p' = System q' \<and> ThirdParty p' = ThirdParty q'"
        unfolding p(2) q(2) .
    qed
  qed
qed

theorem duplicates_flagged_alike_witness:
  "''ThirdParty'' \<in> set flagFields
   \<and> mergeLines ''ThirdParty'' [''package:com.example.app'']
        [basePackage ''com.example.app'', basePackage ''com.android.phone'',
         basePackage ''com.example.app''] =
       Inr [(basePackage ''com.example.app'')\<lparr>ThirdParty := True\<rparr>,
            basePackage ''com.android.phone'',
            (basePackage ''com.example.app'')\<lparr>ThirdParty := True\<rparr>]
   \<and> fst (GetPackages duplicateNameDevice True emptyWorld) =
       Inr ([\<lparr>Name = ''com.example.app'', Files = [], Installer = ''com.android.vending'',
              UID = 10123, Disabled = False, System = False, ThirdParty = True\<rparr>,
             \<lparr>Name = ''com.example.app'', Files = [], Installer = ''com.android.vending'',
              UID = 1010123, Disabled = False, System = False, ThirdParty = True\<rparr>], None)"
proof -
  let ?p1 = "\<lparr>Name = ''com.example.app'', Files = [], Installer = ''com.android.vending'',
              UID = 10123, Disabled = False, System = False, ThirdParty = True\<rparr>"
  let ?p2 = "\<lparr>Name = ''com.example.app'', Files = [], Installer = ''com.android.vending'',
              UID = 1010123, Disabled = False, System = False, ThirdParty = True\<rparr>"
  have h1: "''ThirdParty'' \<in> set flagFields" by (simp add: flagFields_def cmds_def)
  have h2: "mergeLines ''ThirdParty'' [''package:com.example.app'']
        [basePackage ''com.example.app'', basePackage ''com.android.phone'',
         basePackage ''com.example.app''] =
       Inr [(basePackage ''com.example.app'')\<lparr>ThirdParty := True\<rparr>,
            basePackage ''com.android.phone'',
            (basePackage ''com.example.app'')\<lparr>ThirdParty := True\<rparr>]"
    by code_simp
  have run: "fst (GetPackages duplicateNameDevice True emptyWorld) = Inr ([?p1, ?p2], None)"
    by code_simp
  have run': "GetPackages duplicateNameDevice True emptyWorld =
                (Inr ([?p1, ?p2], None), snd (GetPackages duplicateNameDevice True emptyWorld))"
    using run by (simp add: prod_eq_iff)
  have "\<forall>p \<in> set [?p1, ?p2]. \<forall>q \<in> set [?p1, ?p2]. Name p = Name q \<longrightarrow>
            Disabled p = Disabled q \<and> System p = System q \<and> ThirdParty p = ThirdParty q"
    using duplicates_flagged_alike
            [where sh = duplicateNameDevice and w = emptyWorld and fast = True] run'
    by blast
  then show ?thesis using h1 h2 run by (simp del: mergeLines.simps)
qed

section \<open>The fields of a listing line\<close>













section \<open>The fallback of the listing\<close>

text \<open>
  C2. The order of the two listing queries is as claimed (\<open>GetPackages_primary_ok\<close>,
  \<open>GetPackages_reduced_ok\<close>, \<open>GetPackages_both_fail\<close>), but "in every other case
  it returns without error" does not hold of the source. When the annotated query fails and
  the reduced query succeeds with an empty output, or with an output that ends with a line
  feed, both queries are issued and the listing loop then panics on \<open>fields[0]\<close> of
  the blank line. Nothing is returned.
\<close>

theorem fallback_listing_empty_panics:
  "fst (GetPackages reducedEmptyDevice fast emptyWorld) = Inl (IndexOutOfRange 0 0)
   \<and> issued (snd (GetPackages reducedEmptyDevice fast emptyWorld)) =
       [[''pm'', ''list'', ''packages'', ''-U'', ''-u'', ''-i''],
        [''pm'', ''list'', ''packages'', ''-U'', ''-u'']]
   \<and> fst (GetPackages reducedTrailingNewlineDevice True emptyWorld) = Inl (IndexOutOfRange 0 0)"
  by (cases fast) (code_simp, code_simp)

section \<open>Determinism\<close>

lemma hashFile_answers:
  assumes "answers sh m"
  shows "\<exists>w1. hashFile sh (newPackageFile p) w =
           (Inr ((newPackageFile p)\<lparr>MD5 := digestField (m [''md5sum'', p]),
                                     SHA1 := digestField (m [''sha1sum'', p]),
                                     SHA256 := digestField (m [''sha256sum'', p]),
                                     SHA512 := digestField (m [''sha512sum'', p])\<rparr>), w1)"
proof -
  obtain w1 where s1: "Shell sh [''md5sum'', p] w = (m [''md5sum'', p], w1)"
    using Shell_answers [OF assms] by blast
  obtain w2 where s2: "Shell sh [''sha1sum'', p] w1 = (m [''sha1sum'', p], w2)"
    using Shell_answers [OF assms] by blast
  obtain w3 where s3: "Shell sh [''sha256sum'', p] w2 = (m [''sha256sum'', p], w3)"
    using Shell_answers [OF assms] by blast
  obtain w4 where s4: "Shell sh [''sha512sum'', p] w3 = (m [''sha512sum'', p], w4)"
    using Shell_answers [OF assms] by blast
  show ?thesis using hashFile_steps [OF s1 s2 s3 s4] by blast
qed

lemma filesLoop_hashing_deterministic:
  assumes "answers sh m" and "answers sh' m"
  shows "fst (filesLoop sh False lines acc w) = fst (filesLoop sh' False lines acc w')"
proof (induction lines arbitrary: acc w w')
  case Nil
  show ?case by simp
next
  case (Cons line rest)
  let ?v = "TrimPrefix (TrimSpace line) ''package:''"
  show ?case
  proof (cases "?v = []")
    case True
    then show ?thesis using Cons by simp
  next
    case False
    obtain pf w1 where h: "hashFile sh (newPackageFile ?v) w = (Inr pf, w1)"
      and h': "\<exists>w1'. hashFile sh' (newPackageFile ?v) w' = (Inr pf, w1')"
      using hashFile_answers [OF assms(1), of ?v w] hashFile_answers [OF assms(2), of ?v w']
      by blast
    then obtain w1' where h'': "hashFile sh' (newPackageFile ?v) w' = (Inr pf, w1')" by blast
    show ?thesis
      using False h h'' Cons [of "acc @ [pf]" w1 w1'] by simp
  qed
qed

lemma filesLoop_deterministic:
  assumes "answers sh m" and "answers sh' m"
  shows "fst (filesLoop sh fast lines acc w) = fst (filesLoop sh' fast lines acc w')"
proof (cases fast)
  case True
  then show ?thesis by (simp add: filesLoop_fast)
next
  case False
  then show ?thesis using filesLoop_hashing_deterministic [OF assms] by simp
qed

lemma getPackageFiles_deterministic:
  assumes "answers sh m" and "answers sh' m"
  shows "fst (getPackageFiles sh packageName fast w) = fst (getPackageFiles sh' packageName fast w')"
proof -
  obtain out err where m: "m [''pm'', ''path'', packageName] = (out, err)" by (cases "m [''pm'', ''path'', packageName]")
  obtain w1 where s: "Shell sh [''pm'', ''path'', packageName] w = ((out, err), w1)"
    using Shell_answers [OF assms(1)] m by metis
  obtain w1' where s': "Shell sh' [''pm'', ''path'', packageName] w' = ((out, err), w1')"
    using Shell_answers [OF assms(2)] m by metis
  show ?thesis
    using filesLoop_deterministic [OF assms, of fast "Split out CHR 0x0A" "[]" w1 w1']
    by (simp add: getPackageFiles_def s s' del: Split.simps)
qed

lemma listLoop_deterministic:
  assumes "answers sh m" and "answers sh' m"
  shows "fst (listLoop sh fast wi lines acc w) = fst (listLoop sh' fast wi lines acc w')"
proof (induction lines arbitrary: acc w w')
  case Nil
  show ?case by simp
next
  case (Cons line rest)
  show ?case
  proof (cases "parseLine wi line")
    case (Inl e)
    then show ?thesis by simp
  next
    case (Inr t)
    obtain n i u where t: "t = (n, i, u)" by (cases t)
    show ?thesis
    proof (cases "n = []")
      case True
      then show ?thesis using Inr t Cons by simp
    next
      case False
      obtain files w1 where g: "getPackageFiles sh n fast w = (Inr files, w1)"
        using getPackageFiles_total by blast
      obtain files' w1' where g': "getPackageFiles sh' n fast w' = (Inr files', w1')"
        using getPackageFiles_total by blast
      have "files = files'"
        using getPackageFiles_deterministic [OF assms, of n fast w w'] g g' by simp
      then show ?thesis
        using Inr t False g g' Cons by simp
    qed
  qed
qed

lemma cmdsLoop_deterministic:
  assumes "answers sh m" and "answers sh' m"
  shows "fst (cmdsLoop sh cs ps w) = fst (cmdsLoop sh' cs ps w')"
proof (induction cs arbitrary: ps w w')
  case Nil
  show ?case by simp
next
  case (Cons c cs)
  obtain f a where c: "c = (f, a)" by (cases c)
  obtain out err where m: "m [''pm'', ''list'', ''packages'', a] = (out, err)"
    by (cases "m [''pm'', ''list'', ''packages'', a]")
  obtain w1 where s: "Shell sh [''pm'', ''list'', ''packages'', a] w = ((out, err), w1)"
    using Shell_answers [OF assms(1)] m by metis
  obtain w1' where s': "Shell sh' [''pm'', ''list'', ''packages'', a] w' = ((out, err), w1')"
    using Shell_answers [OF assms(2)] m by metis
  show ?case
  proof (cases "err \<noteq> None \<and> out = []")
    case True
    then show ?thesis unfolding c using s s' Cons by simp
  next
    case False
    show ?thesis
    proof (cases "mergeLines f (Split out CHR 0x0A) ps")
      case (Inl e)
      then show ?thesis unfolding c using s s' False by auto
    next
      case (Inr ps')
      then show ?thesis unfolding c using s s' False Cons [of ps' w1 w1'] by auto
    qed
  qed
qed

lemma listAndAugment_deterministic:
  assumes "answers sh m" and "answers sh' m"
  shows "fst (listAndAugment sh fast wi out w) = fst (listAndAugment sh' fast wi out w')"
proof -
  obtain r w1 where l: "listLoop sh fast wi (Split out CHR 0x0A) [] w = (r, w1)" by (metis surj_pair)
  obtain r' w1' where l': "listLoop sh' fast wi (Split out CHR 0x0A) [] w' = (r', w1')" by (metis surj_pair)
  have rr: "r = r'"
    using listLoop_deterministic [OF assms, of fast wi "Split out CHR 0x0A" "[]" w w'] l l' by simp
  show ?thesis
  proof (cases r)
    case (Inl e)
    then show ?thesis using l l' rr by (simp add: listAndAugment_def bindA_def del: Split.simps)
  next
    case (Inr ps)
    obtain q w2 where c: "cmdsLoop sh cmds ps w1 = (q, w2)" by (metis surj_pair)
    obtain q' w2' where c': "cmdsLoop sh' cmds ps w1' = (q', w2')" by (metis surj_pair)
    have "q' = q" using cmdsLoop_deterministic [OF assms, of cmds ps w1 w1'] c c' by simp
    then have c'': "cmdsLoop sh' cmds ps w1' = (q, w2')" using c' by simp
    have l'': "listLoop sh' fast wi (Split out CHR 0x0A) [] w' = (Inr ps, w1')"
      using l' rr Inr by simp
    have l0: "listLoop sh fast wi (Split out CHR 0x0A) [] w = (Inr ps, w1)"
      using l Inr by simp
    show ?thesis
      by (cases q) (simp_all add: listAndAugment_def bindA_def ret_def l0 l'' c c'' del: Split.simps)
  qed
qed

text \<open>
  C9. Two devices that give every command the same output and error, whatever their own
  states, make \<open>GetPackages\<close> produce the same outcome from any two worlds: the same
  records in the same order with the same error value, or the same panic. In particular a
  second run on the same device, from the world the first run left, repeats the first.
\<close>

theorem GetPackages_deterministic:
  assumes "answers sh m" and "answers sh' m"
  shows "fst (GetPackages sh fast w) = fst (GetPackages sh' fast w')"
proof -
  obtain out0 e0 where m0: "m primaryQuery = (out0, e0)" by (cases "m primaryQuery")
  obtain w1 where s: "Shell sh primaryQuery w = ((out0, e0), w1)"
    using Shell_answers [OF assms(1)] m0 by metis
  obtain w1' where s': "Shell sh' primaryQuery w' = ((out0, e0), w1')"
    using Shell_answers [OF assms(2)] m0 by metis
  show ?thesis
  proof (cases e0)
    case None
    show ?thesis
      using GetPackages_primary_ok [of sh w out0 w1 fast] GetPackages_primary_ok [of sh' w' out0 w1' fast]
        s s' None listAndAugment_deterministic [OF assms, of fast True out0 w1 w1']
      by simp
  next
    case (Some e0')
    obtain out e where m1: "m reducedQuery = (out, e)" by (cases "m reducedQuery")
    obtain w2 where t: "Shell sh reducedQuery w1 = ((out, e), w2)"
      using Shell_answers [OF assms(1)] m1 by metis
    obtain w2' where t': "Shell sh' reducedQuery w1' = ((out, e), w2')"
      using Shell_answers [OF assms(2)] m1 by metis
    show ?thesis
    proof (cases e)
      case None
      show ?thesis
        using GetPackages_reduced_ok [of sh w out0 e0' w1 out w2 fast]
          GetPackages_reduced_ok [of sh' w' out0 e0' w1' out w2' fast]
          s s' t t' Some None listAndAugment_deterministic [OF assms, of fast False out w2 w2']
        by simp
    next
      case e: (Some e')
      show ?thesis
        using GetPackages_both_fail [of sh w out0 e0' w1 out e' w2 fast]
          GetPackages_both_fail [of sh' w' out0 e0' w1' out e' w2' fast]
          s s' t t' Some e
        by simp
    qed
  qed
qed

theorem GetPackages_deterministic_witness:
  "fst (GetPackages (tableDevice inventoryTable) False emptyWorld) =
     fst (GetPackages (countingDevice inventoryTable) False
            \<lparr>device = 7, issued = [[''getprop'']], logged = [Infof ''Collecting'']\<rparr>)
   \<and> fst (GetPackages (tableDevice inventoryTable) False emptyWorld) =
       Inr ([\<lparr>Name = ''com.example.app'',
              Files = [\<lparr>Path = ''/data/app/base.apk'', LocalName = [],
                        MD5 = ''d41d8cd98f00b204e9800998ecf8427e'',
                        SHA1 = ''da39a3ee5e6b4b0d3255bfef95601890afd80709'',
                        SHA256 = [], SHA512 = [], Error = [],
                        VerifiedCertificate = False, Certificate = CertInfoZero,
                        CertificateError = [], TrustedCertificate = False\<rparr>],
              Installer = ''com.android.vending'', UID = 10123, Disabled = False,
              System = False, ThirdParty = True\<rparr>], None)
   \<and> device (snd (GetPackages (countingDevice inventoryTable) False
            \<lparr>device = 7, issued = [[''getprop'']], logged = [Infof ''Collecting'']\<rparr>)) = 16"
proof -
  have run: "fst (GetPackages (tableDevice inventoryTable) False emptyWorld) =
       Inr ([\<lparr>Name = ''com.example.app'',
              Files = [\<lparr>Path = ''/data/app/base.apk'', LocalName = [],
                        MD5 = ''d41d8cd98f00b204e9800998ecf8427e'',
                        SHA1 = ''da39a3ee5e6b4b0d3255bfef95601890afd80709'',
                        SHA256 = [], SHA512 = [], Error = [],
                        VerifiedCertificate = False, Certificate = CertInfoZero,
                        CertificateError = [], TrustedCertificate = False\<rparr>],
              Installer = ''com.android.vending'', UID = 10123, Disabled = False,
              System = False, ThirdParty = True\<rparr>], None)"
    by code_simp
  have dev: "device (snd (GetPackages (countingDevice inventoryTable) False
            \<lparr>device = 7, issued = [[''getprop'']], logged = [Infof ''Collecting'']\<rparr>)) = 16"
    by code_simp
  show ?thesis
    using GetPackages_deterministic [OF answers_tableDevice answers_countingDevice,
            of inventoryTable False emptyWorld
               "\<lparr>device = 7, issued = [[''getprop'']], logged = [Infof ''Collecting'']\<rparr>"]
      run dev
    by simp
qed

end
